theory Spec2Isabelle
  imports Main
begin

section \<open>Formulas, inference rules and proofs\<close>

text \<open>
  The maneuvers of \<^verbatim>\<open>propositions/deduction.py\<close> work on three classes that the
  module imports from \<^verbatim>\<open>propositions.syntax\<close>, \<^verbatim>\<open>propositions.proofs\<close> and
  \<^verbatim>\<open>propositions.axiomatic_systems\<close>. The data they hold is fixed by the way
  \<^verbatim>\<open>deduction.py\<close> builds and reads them: \<^verbatim>\<open>Formula(root, first, second)\<close>,
  \<^verbatim>\<open>InferenceRule(assumptions, conclusion)\<close>, \<^verbatim>\<open>Proof.Line(formula)\<close> or
  \<^verbatim>\<open>Proof.Line(formula, rule, assumptions)\<close>, and \<^verbatim>\<open>Proof(statement, rules, lines)\<close>.
\<close>

datatype formula =
    Var string
  | Const string
  | Unary string formula
  | Binary string formula formula

abbreviation Implies :: "formula \<Rightarrow> formula \<Rightarrow> formula" where
  "Implies a b \<equiv> Binary ''->'' a b"

abbreviation Neg :: "formula \<Rightarrow> formula" where
  "Neg a \<equiv> Unary ''~'' a"

fun root :: "formula \<Rightarrow> string" where
  "root (Var x) = x"
| "root (Const c) = c"
| "root (Unary u a) = u"
| "root (Binary b a1 a2) = b"

record inference_rule =
  assumptions :: "formula list"
  conclusion :: formula

text \<open>
  A line is either an assumption line (\<^verbatim>\<open>rule is None\<close>, no reference list) or a line
  justified by a rule together with the indices of the lines that fill the rule's
  assumption slots. Indices are positions in the line tuple, hence naturals.
\<close>

datatype line =
    AssumptionLine formula
  | Line formula inference_rule "nat list"

fun formula_of :: "line \<Rightarrow> formula" where
  "formula_of (AssumptionLine f) = f"
| "formula_of (Line f r refs) = f"

fun is_assumption :: "line \<Rightarrow> bool" where
  "is_assumption (AssumptionLine f) = True"
| "is_assumption (Line f r refs) = False"

record Proof =
  statement :: inference_rule
  rules :: "inference_rule set"
  lines :: "line list"

datatype error = AssertionError | NameError | IndexError | AttributeError

subsection \<open>Specialization of inference rules\<close>

type_synonym specialization_map = "(string \<times> formula) list"

text \<open>
  Modelled from the spec: \<^verbatim>\<open>Formula.substitute_variables\<close> and
  \<^verbatim>\<open>InferenceRule.specialize\<close> (module \<^verbatim>\<open>propositions.proofs\<close>): "textually
  substituting throughout a rule's assumptions+conclusion". A variable the mapping
  does not mention stays as it is.
\<close>

fun substitute_variables :: "specialization_map \<Rightarrow> formula \<Rightarrow> formula" where
  "substitute_variables m (Var x) = (case map_of m x of None \<Rightarrow> Var x | Some f \<Rightarrow> f)"
| "substitute_variables m (Const c) = Const c"
| "substitute_variables m (Unary u a) = Unary u (substitute_variables m a)"
| "substitute_variables m (Binary b a1 a2) =
     Binary b (substitute_variables m a1) (substitute_variables m a2)"

definition specialize :: "inference_rule \<Rightarrow> specialization_map \<Rightarrow> inference_rule" where
  "specialize general m =
     \<lparr>assumptions = map (substitute_variables m) (assumptions general),
      conclusion = substitute_variables m (conclusion general)\<rparr>"

text \<open>
  Modelled from the spec: \<^verbatim>\<open>InferenceRule.specialization_map\<close> and
  \<^verbatim>\<open>InferenceRule.is_specialization_of\<close> (module \<^verbatim>\<open>propositions.proofs\<close>): "a mapping
  from schema variable names to concrete Formulas such that textually substituting
  throughout [the schema's] assumptions+conclusion yields exactly the
  assumptions+conclusion of a target rule; existence of such a mapping is `target is
  a specialization of schema'", and \<^verbatim>\<open>specialization_map(concreteRule) -> mapping | failure\<close>.
  The mapping is computed by matching the schema against the target from left to
  right; \<^verbatim>\<open>None\<close> is the failure.
\<close>

fun formula_specialization_map ::
  "formula \<Rightarrow> formula \<Rightarrow> specialization_map \<Rightarrow> specialization_map option" where
  "formula_specialization_map (Var x) s m =
     (case map_of m x of
        None \<Rightarrow> Some ((x, s) # m)
      | Some t \<Rightarrow> if t = s then Some m else None)"
| "formula_specialization_map (Const c) s m = (if s = Const c then Some m else None)"
| "formula_specialization_map (Unary u g) (Unary u' s) m =
     (if u = u' then formula_specialization_map g s m else None)"
| "formula_specialization_map (Binary b g1 g2) (Binary b' s1 s2) m =
     (if b = b' then
        (case formula_specialization_map g1 s1 m of
           None \<Rightarrow> None
         | Some m' \<Rightarrow> formula_specialization_map g2 s2 m')
      else None)"
| "formula_specialization_map g s m = None"

fun formulas_specialization_map ::
  "formula list \<Rightarrow> formula list \<Rightarrow> specialization_map \<Rightarrow> specialization_map option" where
  "formulas_specialization_map [] [] m = Some m"
| "formulas_specialization_map (g # gs) (s # ss) m =
     (case formula_specialization_map g s m of
        None \<Rightarrow> None
      | Some m' \<Rightarrow> formulas_specialization_map gs ss m')"
| "formulas_specialization_map gs ss m = None"

definition specialization_map :: "inference_rule \<Rightarrow> inference_rule \<Rightarrow> specialization_map option" where
  "specialization_map general specialization =
     formulas_specialization_map
       (assumptions general @ [conclusion general])
       (assumptions specialization @ [conclusion specialization]) []"

definition is_specialization_of :: "inference_rule \<Rightarrow> inference_rule \<Rightarrow> bool" where
  "is_specialization_of specialization general =
     (specialization_map general specialization \<noteq> None)"

subsection \<open>The fixed rules\<close>

text \<open>
  Modelled from the spec: the constants of \<^verbatim>\<open>propositions.axiomatic_systems\<close> that
  \<^verbatim>\<open>deduction.py\<close> names. Modus Ponens: "from A and (A->B) derive B"; \<^verbatim>\<open>I0\<close> the
  identity schema, \<^verbatim>\<open>I1\<close> the weakening schema "psi->(phi->psi)", \<^verbatim>\<open>D\<close> the
  distribution schema "(phi->(psi->chi))->((phi->psi)->(phi->chi))", \<^verbatim>\<open>I2\<close> the ex
  falso schema "~A->(A->C)".
\<close>

definition MP :: inference_rule where
  "MP = \<lparr>assumptions = [Var ''p'', Implies (Var ''p'') (Var ''q'')], conclusion = Var ''q''\<rparr>"

definition I0 :: inference_rule where
  "I0 = \<lparr>assumptions = [], conclusion = Implies (Var ''p'') (Var ''p'')\<rparr>"

definition I1 :: inference_rule where
  "I1 = \<lparr>assumptions = [],
          conclusion = Implies (Var ''q'') (Implies (Var ''p'') (Var ''q''))\<rparr>"

definition D :: inference_rule where
  "D = \<lparr>assumptions = [],
         conclusion =
           Implies (Implies (Var ''p'') (Implies (Var ''q'') (Var ''r'')))
                   (Implies (Implies (Var ''p'') (Var ''q''))
                            (Implies (Var ''p'') (Var ''r'')))\<rparr>"

definition I2 :: inference_rule where
  "I2 = \<lparr>assumptions = [],
          conclusion = Implies (Neg (Var ''p'')) (Implies (Var ''p'') (Var ''q''))\<rparr>"

subsection \<open>Validity of a proof\<close>

text \<open>
  Modelled from the spec: \<^verbatim>\<open>Proof.rule_for_line\<close>, \<^verbatim>\<open>Proof.is_line_valid\<close> and
  \<^verbatim>\<open>Proof.is_valid\<close> (module \<^verbatim>\<open>propositions.proofs\<close>). An assumption line "must appear
  in the assumption list"; a rule line carries "a rule drawn from the proof's
  permitted rule set, together with a list of indices into earlier lines of the same
  proof, one per assumption slot of the (specialized) rule; the formula at each
  referenced earlier line must equal the corresponding specialized assumption, and
  applying the rule's specialization to its template conclusion must equal this
  line's formula". "A Proof is valid iff this holds for all lines and the last line's
  formula equals the statement's goal"; a proof without lines has no last line and is
  not valid.
\<close>

definition rule_for_line :: "Proof \<Rightarrow> nat \<Rightarrow> inference_rule option" where
  "rule_for_line p line_number =
     (case lines p ! line_number of
        AssumptionLine f \<Rightarrow> None
      | Line f r refs \<Rightarrow>
          Some \<lparr>assumptions = map (\<lambda>a. formula_of (lines p ! a)) refs, conclusion = f\<rparr>)"

definition is_line_valid :: "Proof \<Rightarrow> nat \<Rightarrow> bool" where
  "is_line_valid p line_number =
     (case lines p ! line_number of
        AssumptionLine f \<Rightarrow> f \<in> set (assumptions (statement p))
      | Line f r refs \<Rightarrow>
          r \<in> rules p \<and> list_all (\<lambda>a. a < line_number) refs \<and>
          (case rule_for_line p line_number of
             None \<Rightarrow> False
           | Some instance \<Rightarrow> is_specialization_of instance r))"

definition is_valid :: "Proof \<Rightarrow> bool" where
  "is_valid p =
     (lines p \<noteq> [] \<and>
      formula_of (last (lines p)) = conclusion (statement p) \<and>
      list_all (is_line_valid p) [0..<length (lines p)])"

section \<open>The maneuvers of deduction.py\<close>

text \<open>
  Every \<^verbatim>\<open>assert\<close> of the source is a branch that returns \<^verbatim>\<open>AssertionError\<close>, in the
  source's order. The loops that copy lines are \<^const>\<open>map\<close>s over the line tuple.
  The local \<^verbatim>\<open>implication_proof\<close> of \<^verbatim>\<open>prove_corollary\<close> is never read and is left
  out here; the version over the store below builds it.
\<close>

definition prove_corollary :: "Proof \<Rightarrow> formula \<Rightarrow> inference_rule \<Rightarrow> error + Proof" where
  "prove_corollary antecedent_proof consequent conditional =
     (if \<not> is_valid antecedent_proof then Inl AssertionError
      else if \<not> is_specialization_of
                 \<lparr>assumptions = [],
                  conclusion = Implies (conclusion (statement antecedent_proof)) consequent\<rparr>
                 conditional
      then Inl AssertionError
      else
        let implication_rule =
              \<lparr>assumptions = [],
               conclusion = Implies (conclusion (statement antecedent_proof)) consequent\<rparr>
        in case specialization_map conditional implication_rule of
             None \<Rightarrow> Inl AssertionError
           | Some m \<Rightarrow>
               let specialized_conditional = specialize conditional m;
                   antecedent_line = length (lines antecedent_proof) - 1;
                   implication_line = antecedent_line + 1
               in Inr \<lparr>statement =
                          \<lparr>assumptions = assumptions (statement antecedent_proof),
                           conclusion = consequent\<rparr>,
                        rules = rules antecedent_proof \<union> {MP, conditional},
                        lines =
                          lines antecedent_proof @
                          [Line (conclusion specialized_conditional) specialized_conditional [],
                           Line consequent MP [antecedent_line, implication_line]]\<rparr>)"

text \<open>
  The body of the loops that lay a second proof's lines after a first one's
  (\<^verbatim>\<open>combine_proofs\<close>, \<^verbatim>\<open>prove_from_opposites\<close>): an assumption line is appended as it
  is, any other line is rebuilt with every reference moved up by the offset.
\<close>

fun shift_line :: "nat \<Rightarrow> line \<Rightarrow> line" where
  "shift_line offset (AssumptionLine f) = AssumptionLine f"
| "shift_line offset (Line f r refs) = Line f r (map (\<lambda>a. a + offset) refs)"

definition combine_proofs ::
  "Proof \<Rightarrow> Proof \<Rightarrow> formula \<Rightarrow> inference_rule \<Rightarrow> error + Proof" where
  "combine_proofs antecedent1_proof antecedent2_proof consequent double_conditional =
     (if \<not> is_valid antecedent1_proof then Inl AssertionError
      else if \<not> is_valid antecedent2_proof then Inl AssertionError
      else if assumptions (statement antecedent1_proof) \<noteq>
              assumptions (statement antecedent2_proof) then Inl AssertionError
      else if rules antecedent1_proof \<noteq> rules antecedent2_proof then Inl AssertionError
      else if \<not> is_specialization_of
                 \<lparr>assumptions = [],
                  conclusion =
                    Implies (conclusion (statement antecedent1_proof))
                      (Implies (conclusion (statement antecedent2_proof)) consequent)\<rparr>
                 double_conditional
      then Inl AssertionError
      else
        let double_implication_rule =
              \<lparr>assumptions = [],
               conclusion =
                 Implies (conclusion (statement antecedent1_proof))
                   (Implies (conclusion (statement antecedent2_proof)) consequent)\<rparr>
        in case specialization_map double_conditional double_implication_rule of
             None \<Rightarrow> Inl AssertionError
           | Some m \<Rightarrow>
               let specialized_double_conditional = specialize double_conditional m;
                   total_lines_from_proof1 = length (lines antecedent1_proof);
                   total_lines_from_proof2 = length (lines antecedent2_proof)
               in Inr \<lparr>statement =
                          \<lparr>assumptions = assumptions (statement antecedent1_proof),
                           conclusion = consequent\<rparr>,
                        rules = rules antecedent1_proof \<union> {MP, double_conditional},
                        lines =
                          lines antecedent1_proof @
                          map (shift_line total_lines_from_proof1) (lines antecedent2_proof) @
                          [Line (conclusion specialized_double_conditional)
                             specialized_double_conditional [],
                           Line (Implies (conclusion (statement antecedent2_proof)) consequent) MP
                             [total_lines_from_proof1 - 1,
                              total_lines_from_proof1 + total_lines_from_proof2],
                           Line consequent MP
                             [total_lines_from_proof1 + total_lines_from_proof2 - 1,
                              total_lines_from_proof1 + total_lines_from_proof2 + 1]]\<rparr>)"

text \<open>
  \<^verbatim>\<open>remove_assumption\<close>: the loop body appends to \<^verbatim>\<open>new_lines\<close> what one line of the
  input gives. In the Modus Ponens branch the source reads \<^verbatim>\<open>line.assumptions[0]\<close>,
  \<^verbatim>\<open>line.assumptions[1]\<close> and the lines they name; a read out of range raises
  \<^verbatim>\<open>IndexError\<close>.
\<close>

fun remove_assumption_step :: "Proof \<Rightarrow> formula \<Rightarrow> line list \<Rightarrow> line \<Rightarrow> error + line list" where
  "remove_assumption_step p assumption new_lines (AssumptionLine f) =
     (if f = assumption
      then Inr (new_lines @ [Line (Implies assumption assumption) I0 []])
      else Inr (new_lines @ [Line (Implies f (Implies assumption f)) I1 []]))"
| "remove_assumption_step p assumption new_lines (Line f rule_used refs) =
     (if rule_used = MP then
        (case refs of
           phi_line # implication_line # rest \<Rightarrow>
             if phi_line < length (lines p) \<and> implication_line < length (lines p) then
               Inr (new_lines @
                 [Line (Implies
                          (Implies assumption
                             (Implies (formula_of (lines p ! phi_line))
                                      (formula_of (lines p ! implication_line))))
                          (Implies
                             (Implies assumption (formula_of (lines p ! phi_line)))
                             (Implies assumption f)))
                       D []])
             else Inl IndexError
         | _ \<Rightarrow> Inl IndexError)
      else
        Inr (new_lines @
          [Line f rule_used [],
           Line (Implies f (Implies assumption f)) I1 [],
           Line (Implies assumption f) MP [length new_lines, length new_lines + 1]]))"

fun remove_assumption_loop ::
  "Proof \<Rightarrow> formula \<Rightarrow> line list \<Rightarrow> line list \<Rightarrow> error + line list" where
  "remove_assumption_loop p assumption new_lines [] = Inr new_lines"
| "remove_assumption_loop p assumption new_lines (l # ls) =
     (case remove_assumption_step p assumption new_lines l of
        Inl e \<Rightarrow> Inl e
      | Inr new_lines' \<Rightarrow> remove_assumption_loop p assumption new_lines' ls)"

text \<open>
  The source returns \<^verbatim>\<open>Proof(new_statement, rules, [])\<close>: the list \<^verbatim>\<open>new_lines\<close> that the
  loop has built is not what it passes as the lines.
\<close>

definition remove_assumption :: "Proof \<Rightarrow> error + Proof" where
  "remove_assumption p =
     (if \<not> is_valid p then Inl AssertionError
      else if \<not> length (assumptions (statement p)) > 0 then Inl AssertionError
      else if \<not> (\<forall>rule \<in> rules p. rule = MP \<or> length (assumptions rule) = 0)
      then Inl AssertionError
      else
        let assumption = last (assumptions (statement p));
            goal = conclusion (statement p)
        in case remove_assumption_loop p assumption [] (lines p) of
             Inl e \<Rightarrow> Inl e
           | Inr new_lines \<Rightarrow>
               Inr \<lparr>statement =
                      \<lparr>assumptions = butlast (assumptions (statement p)),
                       conclusion = Implies assumption goal\<rparr>,
                    rules = rules p \<union> {MP, I0, I1, D},
                    lines = []\<rparr>)"

definition prove_from_opposites :: "Proof \<Rightarrow> Proof \<Rightarrow> formula \<Rightarrow> error + Proof" where
  "prove_from_opposites proof_of_affirmation proof_of_negation goal =
     (if \<not> is_valid proof_of_affirmation then Inl AssertionError
      else if \<not> is_valid proof_of_negation then Inl AssertionError
      else if assumptions (statement proof_of_affirmation) \<noteq>
              assumptions (statement proof_of_negation) then Inl AssertionError
      else if Neg (conclusion (statement proof_of_affirmation)) \<noteq>
              conclusion (statement proof_of_negation) then Inl AssertionError
      else if rules proof_of_affirmation \<noteq> rules proof_of_negation then Inl AssertionError
      else
        let affirmation = conclusion (statement proof_of_affirmation);
            i2_formula = Implies (Neg affirmation) (Implies affirmation goal);
            lines1 = lines proof_of_affirmation;
            offset_affirmation = length lines1 - 1;
            lines2 = lines1 @ map (shift_line (offset_affirmation + 1)) (lines proof_of_negation);
            offset_negation_end = length lines2 - 1;
            lines3 = lines2 @ [Line i2_formula I2 []];
            i2_line = length lines3 - 1;
            lines4 = lines3 @ [Line (Implies affirmation goal) MP [offset_negation_end, i2_line]];
            lines5 = lines4 @ [Line goal MP [offset_affirmation, length lines4 - 1]]
        in Inr \<lparr>statement =
                   \<lparr>assumptions = assumptions (statement proof_of_affirmation),
                    conclusion = goal\<rparr>,
                 rules = rules proof_of_affirmation \<union> {MP, I2},
                 lines = lines5\<rparr>)"

text \<open>
  \<^verbatim>\<open>prove_by_way_of_contradiction\<close> ends in \<^verbatim>\<open>return Proof(new_statement, rules, [])\<close>
  and never assigns \<^verbatim>\<open>rules\<close>. The name is looked up in the module's globals, which
  are the names of the three imported modules: the parameter \<open>rules_global\<close> is what
  that lookup finds, \<open>None\<close> when no such global exists (the lookup then raises
  \<^verbatim>\<open>NameError\<close>). \<^verbatim>\<open>negation.first\<close> exists only on a formula with an operator at its
  root.
\<close>

fun first :: "formula \<Rightarrow> error + formula" where
  "first (Unary u a) = Inr a"
| "first (Binary b a1 a2) = Inr a1"
| "first f = Inl AttributeError"

definition prove_by_way_of_contradiction ::
  "inference_rule set option \<Rightarrow> Proof \<Rightarrow> error + Proof" where
  "prove_by_way_of_contradiction rules_global p =
     (if \<not> is_valid p then Inl AssertionError
      else if conclusion (statement p) \<noteq> Neg (Implies (Var ''p'') (Var ''p''))
      then Inl AssertionError
      else if \<not> length (assumptions (statement p)) > 0 then Inl AssertionError
      else if root (last (assumptions (statement p))) \<noteq> ''~'' then Inl AssertionError
      else if \<not> (\<forall>rule \<in> rules p. rule = MP \<or> length (assumptions rule) = 0)
      then Inl AssertionError
      else
        let negation = last (assumptions (statement p))
        in case first negation of
             Inl e \<Rightarrow> Inl e
           | Inr f \<Rightarrow>
               (case rules_global of
                  None \<Rightarrow> Inl NameError
                | Some rs \<Rightarrow>
                    Inr \<lparr>statement =
                           \<lparr>assumptions = butlast (assumptions (statement p)),
                            conclusion = f\<rparr>,
                         rules = rs,
                         lines = []\<rparr>))"

text \<open>
  The composition that the spec gives as the algorithm of
  \<^verbatim>\<open>prove_by_way_of_contradiction\<close> (it is not what the source does): "this composes
  4.3 (remove the `~phi' assumption to get a proof of `(~phi -> ~(p->p))') with an
  application of the fixed schema N via 4.1 (prove_corollary) to discharge the
  implication and land on phi". The schema \<open>N\<close> is a constant of
  \<^verbatim>\<open>propositions.axiomatic_systems\<close> and is taken as a parameter.
\<close>

definition contradiction_by_composition :: "inference_rule \<Rightarrow> Proof \<Rightarrow> error + Proof" where
  "contradiction_by_composition N p =
     (case remove_assumption p of
        Inl e \<Rightarrow> Inl e
      | Inr implication_proof \<Rightarrow>
          (case first (last (assumptions (statement p))) of
             Inl e \<Rightarrow> Inl e
           | Inr f \<Rightarrow> prove_corollary implication_proof f N))"

section \<open>The maneuvers over a store of objects\<close>

text \<open>
  Whether a maneuver changes its inputs cannot be read off a function from values to
  values. Here the same maneuvers run over a store: a heap of objects, addressed by
  their position. A \<^verbatim>\<open>Proof\<close> object holds its statement, its rules and the address
  of its line sequence; a sequence holds the addresses of its \<^verbatim>\<open>Line\<close> objects.
  Creating an object extends the heap (\<open>alloc\<close>); \<^verbatim>\<open>lines.append(x)\<close> overwrites the
  list object at the address of \<^verbatim>\<open>lines\<close> (\<open>list_append\<close>), which is the one way the
  source changes an object that exists.
\<close>

type_synonym addr = nat

datatype obj =
    LineObj line
  | ListObj "addr list"
  | ProofObj inference_rule "inference_rule set" addr

type_synonym heap = "obj list"

definition alloc :: "obj \<Rightarrow> heap \<Rightarrow> addr \<times> heap" where
  "alloc ob h = (length h, h @ [ob])"

definition list_append :: "addr \<Rightarrow> addr \<Rightarrow> heap \<Rightarrow> heap" where
  "list_append l x h =
     (if l < length h then
        (case h ! l of ListObj xs \<Rightarrow> h[l := ListObj (xs @ [x])] | _ \<Rightarrow> h)
      else h)"

text \<open>
  Reading a proof back from the store: \<open>None\<close> unless the address holds a \<^verbatim>\<open>Proof\<close>
  object whose sequence and lines are in the store.
\<close>

definition get_line :: "heap \<Rightarrow> addr \<Rightarrow> line option" where
  "get_line h a =
     (if a < length h then (case h ! a of LineObj ln \<Rightarrow> Some ln | _ \<Rightarrow> None) else None)"

definition get_list :: "heap \<Rightarrow> addr \<Rightarrow> addr list option" where
  "get_list h l =
     (if l < length h then (case h ! l of ListObj xs \<Rightarrow> Some xs | _ \<Rightarrow> None) else None)"

definition read_lines :: "heap \<Rightarrow> addr \<Rightarrow> line list option" where
  "read_lines h l =
     (case get_list h l of None \<Rightarrow> None | Some xs \<Rightarrow> those (map (get_line h) xs))"

definition read_proof :: "heap \<Rightarrow> addr \<Rightarrow> Proof option" where
  "read_proof h p =
     (if p < length h then
        (case h ! p of
           ProofObj st rs l \<Rightarrow>
             (case read_lines h l of
                None \<Rightarrow> None
              | Some ls \<Rightarrow> Some \<lparr>statement = st, rules = rs, lines = ls\<rparr>)
         | _ \<Rightarrow> None)
      else None)"

definition line_addrs :: "heap \<Rightarrow> addr \<Rightarrow> addr list" where
  "line_addrs h p =
     (case h ! p of
        ProofObj st rs l \<Rightarrow> (case get_list h l of Some xs \<Rightarrow> xs | None \<Rightarrow> [])
      | _ \<Rightarrow> [])"

text \<open>
  What one iteration of a copying loop appends: \<^verbatim>\<open>lines.append(line)\<close> appends the
  address of the input's own \<^verbatim>\<open>Line\<close> object (\<open>Copy\<close>: the object is shared, not
  copied), \<^verbatim>\<open>lines.append(Proof.Line(...))\<close> creates a new object and appends its
  address (\<open>New\<close>). \<open>new_proof\<close> is \<^verbatim>\<open>lines = []\<close>, the appends, and
  \<^verbatim>\<open>Proof(statement, rules, lines)\<close>. \<open>shift_item\<close> is the body of the loop over the
  second proof's lines.
\<close>

datatype item = Copy addr | New line

fun emit :: "addr \<Rightarrow> heap \<Rightarrow> item \<Rightarrow> heap" where
  "emit l h (Copy a) = list_append l a h"
| "emit l h (New ln) = (let (a, h1) = alloc (LineObj ln) h in list_append l a h1)"

definition build :: "addr \<Rightarrow> item list \<Rightarrow> heap \<Rightarrow> heap" where
  "build l items h = foldl (emit l) h items"

definition new_proof ::
  "inference_rule \<Rightarrow> inference_rule set \<Rightarrow> item list \<Rightarrow> heap \<Rightarrow> addr \<times> heap" where
  "new_proof st rs items h =
     (let (l, h1) = alloc (ListObj []) h;
          h2 = build l items h1
      in alloc (ProofObj st rs l) h2)"

definition shift_item :: "heap \<Rightarrow> nat \<Rightarrow> addr \<Rightarrow> item" where
  "shift_item h offset a =
     (case get_line h a of
        Some ln \<Rightarrow> if is_assumption ln then Copy a else New (shift_line offset ln)
      | None \<Rightarrow> Copy a)"

text \<open>The line that an item stands for.\<close>

fun item_line :: "heap \<Rightarrow> item \<Rightarrow> line option" where
  "item_line h (Copy a) = get_line h a"
| "item_line h (New ln) = Some ln"

text \<open>
  The maneuvers. The assertions read the input proofs and change nothing;
  \<^verbatim>\<open>prove_corollary\<close> also builds its unused \<^verbatim>\<open>implication_proof\<close>.
\<close>

definition prove_corollary_store ::
  "heap \<Rightarrow> addr \<Rightarrow> formula \<Rightarrow> inference_rule \<Rightarrow> (error + addr) \<times> heap" where
  "prove_corollary_store h pa consequent conditional =
     (case read_proof h pa of
        None \<Rightarrow> (Inl AttributeError, h)
      | Some antecedent_proof \<Rightarrow>
          if \<not> is_valid antecedent_proof then (Inl AssertionError, h)
          else if \<not> is_specialization_of
                     \<lparr>assumptions = [],
                      conclusion = Implies (conclusion (statement antecedent_proof)) consequent\<rparr>
                     conditional
          then (Inl AssertionError, h)
          else
            let implication_rule =
                  \<lparr>assumptions = [],
                   conclusion = Implies (conclusion (statement antecedent_proof)) consequent\<rparr>
            in case specialization_map conditional implication_rule of
                 None \<Rightarrow> (Inl AssertionError, h)
               | Some m \<Rightarrow>
                   let specialized_conditional = specialize conditional m;
                       (implication_proof, h1) =
                         new_proof implication_rule (rules antecedent_proof \<union> {MP, conditional})
                           [New (Line (conclusion specialized_conditional)
                                   specialized_conditional [])] h;
                       antecedent_line = length (lines antecedent_proof) - 1;
                       implication_line = antecedent_line + 1;
                       (q, h2) =
                         new_proof
                           \<lparr>assumptions = assumptions (statement antecedent_proof),
                            conclusion = consequent\<rparr>
                           (rules antecedent_proof \<union> {MP, conditional})
                           (map Copy (line_addrs h pa) @
                            [New (Line (conclusion specialized_conditional)
                                    specialized_conditional []),
                             New (Line consequent MP [antecedent_line, implication_line])])
                           h1
                   in (Inr q, h2))"

definition combine_proofs_store ::
  "heap \<Rightarrow> addr \<Rightarrow> addr \<Rightarrow> formula \<Rightarrow> inference_rule \<Rightarrow> (error + addr) \<times> heap" where
  "combine_proofs_store h pa1 pa2 consequent double_conditional =
     (case read_proof h pa1 of
        None \<Rightarrow> (Inl AttributeError, h)
      | Some antecedent1_proof \<Rightarrow>
     (case read_proof h pa2 of
        None \<Rightarrow> (Inl AttributeError, h)
      | Some antecedent2_proof \<Rightarrow>
          if \<not> is_valid antecedent1_proof then (Inl AssertionError, h)
          else if \<not> is_valid antecedent2_proof then (Inl AssertionError, h)
          else if assumptions (statement antecedent1_proof) \<noteq>
                  assumptions (statement antecedent2_proof) then (Inl AssertionError, h)
          else if rules antecedent1_proof \<noteq> rules antecedent2_proof
          then (Inl AssertionError, h)
          else if \<not> is_specialization_of
                     \<lparr>assumptions = [],
                      conclusion =
                        Implies (conclusion (statement antecedent1_proof))
                          (Implies (conclusion (statement antecedent2_proof)) consequent)\<rparr>
                     double_conditional
          then (Inl AssertionError, h)
          else
            let double_implication_rule =
                  \<lparr>assumptions = [],
                   conclusion =
                     Implies (conclusion (statement antecedent1_proof))
                       (Implies (conclusion (statement antecedent2_proof)) consequent)\<rparr>
            in case specialization_map double_conditional double_implication_rule of
                 None \<Rightarrow> (Inl AssertionError, h)
               | Some m \<Rightarrow>
                   let specialized_double_conditional = specialize double_conditional m;
                       total_lines_from_proof1 = length (lines antecedent1_proof);
                       total_lines_from_proof2 = length (lines antecedent2_proof);
                       (q, h1) =
                         new_proof
                           \<lparr>assumptions = assumptions (statement antecedent1_proof),
                            conclusion = consequent\<rparr>
                           (rules antecedent1_proof \<union> {MP, double_conditional})
                           (map Copy (line_addrs h pa1) @
                            map (shift_item h total_lines_from_proof1) (line_addrs h pa2) @
                            [New (Line (conclusion specialized_double_conditional)
                                    specialized_double_conditional []),
                             New (Line (Implies (conclusion (statement antecedent2_proof))
                                          consequent) MP
                                    [total_lines_from_proof1 - 1,
                                     total_lines_from_proof1 + total_lines_from_proof2]),
                             New (Line consequent MP
                                    [total_lines_from_proof1 + total_lines_from_proof2 - 1,
                                     total_lines_from_proof1 + total_lines_from_proof2 + 1])])
                           h
                   in (Inr q, h1)))"

fun remove_assumption_loop_store ::
  "Proof \<Rightarrow> formula \<Rightarrow> addr \<Rightarrow> line list \<Rightarrow> line list \<Rightarrow> heap \<Rightarrow> (error + line list) \<times> heap" where
  "remove_assumption_loop_store p assumption l new_lines [] h = (Inr new_lines, h)"
| "remove_assumption_loop_store p assumption l new_lines (ln # lns) h =
     (case remove_assumption_step p assumption new_lines ln of
        Inl e \<Rightarrow> (Inl e, h)
      | Inr new_lines' \<Rightarrow>
          remove_assumption_loop_store p assumption l new_lines' lns
            (build l (map New (drop (length new_lines) new_lines')) h))"

definition remove_assumption_store :: "heap \<Rightarrow> addr \<Rightarrow> (error + addr) \<times> heap" where
  "remove_assumption_store h pa =
     (case read_proof h pa of
        None \<Rightarrow> (Inl AttributeError, h)
      | Some p \<Rightarrow>
          if \<not> is_valid p then (Inl AssertionError, h)
          else if \<not> length (assumptions (statement p)) > 0 then (Inl AssertionError, h)
          else if \<not> (\<forall>rule \<in> rules p. rule = MP \<or> length (assumptions rule) = 0)
          then (Inl AssertionError, h)
          else
            let assumption = last (assumptions (statement p));
                goal = conclusion (statement p);
                (new_lines_addr, h1) = alloc (ListObj []) h
            in case remove_assumption_loop_store p assumption new_lines_addr [] (lines p) h1 of
                 (Inl e, h2) \<Rightarrow> (Inl e, h2)
               | (Inr new_lines, h2) \<Rightarrow>
                   let (q, h3) =
                         new_proof
                           \<lparr>assumptions = butlast (assumptions (statement p)),
                            conclusion = Implies assumption goal\<rparr>
                           (rules p \<union> {MP, I0, I1, D}) [] h2
                   in (Inr q, h3))"

definition prove_from_opposites_store ::
  "heap \<Rightarrow> addr \<Rightarrow> addr \<Rightarrow> formula \<Rightarrow> (error + addr) \<times> heap" where
  "prove_from_opposites_store h pa pn goal =
     (case read_proof h pa of
        None \<Rightarrow> (Inl AttributeError, h)
      | Some proof_of_affirmation \<Rightarrow>
     (case read_proof h pn of
        None \<Rightarrow> (Inl AttributeError, h)
      | Some proof_of_negation \<Rightarrow>
          if \<not> is_valid proof_of_affirmation then (Inl AssertionError, h)
          else if \<not> is_valid proof_of_negation then (Inl AssertionError, h)
          else if assumptions (statement proof_of_affirmation) \<noteq>
                  assumptions (statement proof_of_negation) then (Inl AssertionError, h)
          else if Neg (conclusion (statement proof_of_affirmation)) \<noteq>
                  conclusion (statement proof_of_negation) then (Inl AssertionError, h)
          else if rules proof_of_affirmation \<noteq> rules proof_of_negation
          then (Inl AssertionError, h)
          else
            let affirmation = conclusion (statement proof_of_affirmation);
                i2_formula = Implies (Neg affirmation) (Implies affirmation goal);
                n1 = length (lines proof_of_affirmation);
                n2 = length (lines proof_of_negation);
                offset_affirmation = n1 - 1;
                offset_negation_end = n1 + n2 - 1;
                i2_line = n1 + n2 + 1 - 1;
                (q, h1) =
                  new_proof
                    \<lparr>assumptions = assumptions (statement proof_of_affirmation),
                     conclusion = goal\<rparr>
                    (rules proof_of_affirmation \<union> {MP, I2})
                    (map Copy (line_addrs h pa) @
                     map (shift_item h (offset_affirmation + 1)) (line_addrs h pn) @
                     [New (Line i2_formula I2 []),
                      New (Line (Implies affirmation goal) MP [offset_negation_end, i2_line]),
                      New (Line goal MP [offset_affirmation, n1 + n2 + 2 - 1])])
                    h
            in (Inr q, h1)))"

definition prove_by_way_of_contradiction_store ::
  "inference_rule set option \<Rightarrow> heap \<Rightarrow> addr \<Rightarrow> (error + addr) \<times> heap" where
  "prove_by_way_of_contradiction_store rules_global h pa =
     (case read_proof h pa of
        None \<Rightarrow> (Inl AttributeError, h)
      | Some p \<Rightarrow>
          (case prove_by_way_of_contradiction rules_global p of
             Inl e \<Rightarrow> (Inl e, h)
           | Inr result \<Rightarrow>
               let (q, h1) = new_proof (statement result) (rules result) [] h
               in (Inr q, h1)))"

datatype call =
    ProveCorollary addr formula inference_rule
  | CombineProofs addr addr formula inference_rule
  | RemoveAssumption addr
  | ProveFromOpposites addr addr formula
  | ProveByWayOfContradiction addr

fun run :: "inference_rule set option \<Rightarrow> call \<Rightarrow> heap \<Rightarrow> (error + addr) \<times> heap" where
  "run rules_global (ProveCorollary pa c r) h = prove_corollary_store h pa c r"
| "run rules_global (CombineProofs pa1 pa2 c r) h = combine_proofs_store h pa1 pa2 c r"
| "run rules_global (RemoveAssumption pa) h = remove_assumption_store h pa"
| "run rules_global (ProveFromOpposites pa pn c) h = prove_from_opposites_store h pa pn c"
| "run rules_global (ProveByWayOfContradiction pa) h =
     prove_by_way_of_contradiction_store rules_global h pa"

text \<open>
  A sequence of calls, each on the store the one before has left; a later call may
  be given the proof an earlier one returned.
\<close>

fun run_calls :: "inference_rule set option \<Rightarrow> call list \<Rightarrow> heap \<Rightarrow> heap" where
  "run_calls rules_global [] h = h"
| "run_calls rules_global (c # cs) h = run_calls rules_global cs (snd (run rules_global c h))"

text \<open>
  What a call leaves of the store \<open>h\<close> it was given: every object of \<open>h\<close> as it
  was, and, where a proof is returned, a new \<^verbatim>\<open>Proof\<close> object whose line sequence is
  a new object too.
\<close>

definition frame :: "heap \<Rightarrow> (error + addr) \<times> heap \<Rightarrow> bool" where
  "frame h r = (case r of (res, h') \<Rightarrow>
     take (length h) h' = h \<and>
     (case res of Inl e \<Rightarrow> True
      | Inr q \<Rightarrow> q < length h' \<and> length h \<le> q \<and>
          (case h' ! q of ProofObj st rs l \<Rightarrow> length h \<le> l | _ \<Rightarrow> False)))"

section \<open>Concrete proofs\<close>

text \<open>
  Small inputs on which the maneuvers are run. \<open>proof_of_x\<close> and \<open>proof_of_y\<close> prove
  "x" and "y" from the assumptions "x" and "(x->y)"; \<open>proof_of_p\<close> and
  \<open>proof_of_not_p\<close> prove "p" and "~p" from "p" and "(p->~p)"; \<open>two_line_proof\<close> is
  the two-line proof of "p" from "q" and "p"; \<open>contradiction_proof\<close> proves
  "~(p->p)" from the assumption "~(p->p)".
\<close>

definition proof_of_x :: Proof where
  "proof_of_x =
     \<lparr>statement =
        \<lparr>assumptions = [Var ''x'', Implies (Var ''x'') (Var ''y'')], conclusion = Var ''x''\<rparr>,
      rules = {MP},
      lines = [AssumptionLine (Var ''x'')]\<rparr>"

definition proof_of_y :: Proof where
  "proof_of_y =
     \<lparr>statement =
        \<lparr>assumptions = [Var ''x'', Implies (Var ''x'') (Var ''y'')], conclusion = Var ''y''\<rparr>,
      rules = {MP},
      lines =
        [AssumptionLine (Var ''x''),
         AssumptionLine (Implies (Var ''x'') (Var ''y'')),
         Line (Var ''y'') MP [0, 1]]\<rparr>"

definition proof_of_p :: Proof where
  "proof_of_p =
     \<lparr>statement =
        \<lparr>assumptions = [Var ''p'', Implies (Var ''p'') (Neg (Var ''p''))],
         conclusion = Var ''p''\<rparr>,
      rules = {MP},
      lines = [AssumptionLine (Var ''p'')]\<rparr>"

definition proof_of_not_p :: Proof where
  "proof_of_not_p =
     \<lparr>statement =
        \<lparr>assumptions = [Var ''p'', Implies (Var ''p'') (Neg (Var ''p''))],
         conclusion = Neg (Var ''p'')\<rparr>,
      rules = {MP},
      lines =
        [AssumptionLine (Var ''p''),
         AssumptionLine (Implies (Var ''p'') (Neg (Var ''p''))),
         Line (Neg (Var ''p'')) MP [0, 1]]\<rparr>"

definition two_line_proof :: Proof where
  "two_line_proof =
     \<lparr>statement = \<lparr>assumptions = [Var ''q'', Var ''p''], conclusion = Var ''p''\<rparr>,
      rules = {MP},
      lines = [AssumptionLine (Var ''p''), AssumptionLine (Var ''p'')]\<rparr>"

definition contradiction_proof :: Proof where
  "contradiction_proof =
     \<lparr>statement =
        \<lparr>assumptions = [Neg (Implies (Var ''p'') (Var ''p''))],
         conclusion = Neg (Implies (Var ''p'') (Var ''p''))\<rparr>,
      rules = {MP},
      lines = [AssumptionLine (Neg (Implies (Var ''p'') (Var ''p'')))]\<rparr>"

text \<open>
  A store that holds \<open>proof_of_x\<close> at address 2 and \<open>proof_of_y\<close> at address 6; the
  two proofs share the \<^verbatim>\<open>Line\<close> object at address 0.
\<close>

definition heap_of_x_and_y :: heap where
  "heap_of_x_and_y =
     [LineObj (AssumptionLine (Var ''x'')),
      ListObj [0],
      ProofObj (statement proof_of_x) (rules proof_of_x) 1,
      LineObj (AssumptionLine (Implies (Var ''x'') (Var ''y''))),
      LineObj (Line (Var ''y'') MP [0, 1]),
      ListObj [0, 3, 4],
      ProofObj (statement proof_of_y) (rules proof_of_y) 5]"

section \<open>The specialization map is sound and complete\<close>

text \<open>
  Matching returns a mapping exactly when one exists: the mapping it returns turns
  the schema into the target, and every rule obtained from a schema by substitution
  is recognised as a specialization of it.
\<close>

lemma formula_specialization_map_sound:
  "formula_specialization_map g s m = Some m' \<Longrightarrow>
     map_of m \<subseteq>\<^sub>m map_of m' \<and>
     (\<forall>m''. map_of m' \<subseteq>\<^sub>m map_of m'' \<longrightarrow> substitute_variables m'' g = s)"
proof (induction g s m arbitrary: m' rule: formula_specialization_map.induct)
  case (1 x s m)
  show ?case
  proof (cases "map_of m x")
    case None
    with 1 have m': "m' = (x, s) # m" by simp
    have "map_of m \<subseteq>\<^sub>m map_of m'"
      using None by (auto simp: m' map_le_def dom_def)
    moreover have "\<forall>m''. map_of m' \<subseteq>\<^sub>m map_of m'' \<longrightarrow> substitute_variables m'' (Var x) = s"
    proof (intro allI impI)
      fix m'' assume "map_of m' \<subseteq>\<^sub>m map_of m''"
      then have "map_of m'' x = Some s"
        by (metis m' domI map_le_def map_of_Cons_code(2))
      then show "substitute_variables m'' (Var x) = s" by simp
    qed
    ultimately show ?thesis by blast
  next
    case (Some t)
    with 1 have ts: "t = s" and m': "m' = m" by (auto split: if_splits)
    have "\<forall>m''. map_of m' \<subseteq>\<^sub>m map_of m'' \<longrightarrow> substitute_variables m'' (Var x) = s"
    proof (intro allI impI)
      fix m'' assume "map_of m' \<subseteq>\<^sub>m map_of m''"
      then have "map_of m'' x = Some s"
        using Some ts m' by (metis domI map_le_def)
      then show "substitute_variables m'' (Var x) = s" by simp
    qed
    then show ?thesis by (simp add: m')
  qed
next
  case (2 c s m)
  then show ?case by (auto split: if_splits)
next
  case (3 u g u' s m)
  then show ?case by (auto split: if_splits)
next
  case (4 b g1 g2 b' s1 s2 m)
  from 4(3) obtain m1 where bb: "b = b'"
    and m1: "formula_specialization_map g1 s1 m = Some m1"
    and m2: "formula_specialization_map g2 s2 m1 = Some m'"
    by (auto split: if_splits option.splits)
  from 4(1)[OF bb m1] have a: "map_of m \<subseteq>\<^sub>m map_of m1"
    and a': "\<And>m''. map_of m1 \<subseteq>\<^sub>m map_of m'' \<Longrightarrow> substitute_variables m'' g1 = s1" by auto
  from 4(2)[OF bb m1 m2] have b: "map_of m1 \<subseteq>\<^sub>m map_of m'"
    and b': "\<And>m''. map_of m' \<subseteq>\<^sub>m map_of m'' \<Longrightarrow> substitute_variables m'' g2 = s2" by auto
  have "map_of m \<subseteq>\<^sub>m map_of m'" using a b by (rule map_le_trans)
  moreover have "\<forall>m''. map_of m' \<subseteq>\<^sub>m map_of m'' \<longrightarrow>
      substitute_variables m'' (Binary b g1 g2) = Binary b' s1 s2"
    using a' b' b bb by (auto intro: map_le_trans)
  ultimately show ?case by blast
qed simp_all

lemma formulas_specialization_map_sound:
  "formulas_specialization_map gs ss m = Some m' \<Longrightarrow>
     map_of m \<subseteq>\<^sub>m map_of m' \<and>
     (\<forall>m''. map_of m' \<subseteq>\<^sub>m map_of m'' \<longrightarrow> map (substitute_variables m'') gs = ss)"
proof (induction gs ss m arbitrary: m' rule: formulas_specialization_map.induct)
  case (2 g gs s ss m)
  from 2(2) obtain m1 where m1: "formula_specialization_map g s m = Some m1"
    and m2: "formulas_specialization_map gs ss m1 = Some m'"
    by (auto split: option.splits)
  from formula_specialization_map_sound[OF m1] have a: "map_of m \<subseteq>\<^sub>m map_of m1"
    and a': "\<And>m''. map_of m1 \<subseteq>\<^sub>m map_of m'' \<Longrightarrow> substitute_variables m'' g = s" by auto
  from 2(1)[OF m1 m2] have b: "map_of m1 \<subseteq>\<^sub>m map_of m'"
    and b': "\<And>m''. map_of m' \<subseteq>\<^sub>m map_of m'' \<Longrightarrow> map (substitute_variables m'') gs = ss" by auto
  have "map_of m \<subseteq>\<^sub>m map_of m'" using a b by (rule map_le_trans)
  moreover have "\<forall>m''. map_of m' \<subseteq>\<^sub>m map_of m'' \<longrightarrow>
      map (substitute_variables m'') (g # gs) = s # ss"
    using a' b' b by (auto intro: map_le_trans)
  ultimately show ?case by blast
qed simp_all

lemma specialization_map_sound:
  assumes "specialization_map general specialization = Some m"
  shows "specialize general m = specialization"
proof -
  from assms have "map (substitute_variables m) (assumptions general @ [conclusion general])
      = assumptions specialization @ [conclusion specialization]"
    unfolding specialization_map_def
    using formulas_specialization_map_sound map_le_refl by blast
  then have "map (substitute_variables m) (assumptions general) = assumptions specialization"
    and "substitute_variables m (conclusion general) = conclusion specialization"
    by simp_all
  then show ?thesis by (simp add: specialize_def)
qed

lemma formula_specialization_map_complete:
  assumes "substitute_variables \<sigma> g = s"
    and "\<forall>x t. map_of m x = Some t \<longrightarrow> substitute_variables \<sigma> (Var x) = t"
  shows "\<exists>m'. formula_specialization_map g s m = Some m' \<and>
     (\<forall>x t. map_of m' x = Some t \<longrightarrow> substitute_variables \<sigma> (Var x) = t)"
  using assms
proof (induction g arbitrary: s m)
  case (Var x)
  then show ?case by (cases "map_of m x") auto
next
  case (Const c)
  then show ?case by auto
next
  case (Unary u g)
  then show ?case by auto
next
  case (Binary b g1 g2)
  from Binary.prems(1) obtain s1 s2 where s: "s = Binary b s1 s2"
    and s1: "substitute_variables \<sigma> g1 = s1" and s2: "substitute_variables \<sigma> g2 = s2"
    by auto
  from Binary.IH(1)[OF s1 Binary.prems(2)] obtain m1 where
    m1: "formula_specialization_map g1 s1 m = Some m1"
    and a1: "\<forall>x t. map_of m1 x = Some t \<longrightarrow> substitute_variables \<sigma> (Var x) = t" by blast
  from Binary.IH(2)[OF s2 a1] obtain m2 where
    m2: "formula_specialization_map g2 s2 m1 = Some m2"
    and a2: "\<forall>x t. map_of m2 x = Some t \<longrightarrow> substitute_variables \<sigma> (Var x) = t" by blast
  show ?case using s m1 m2 a2 by simp
qed

lemma formulas_specialization_map_complete:
  assumes "\<forall>x t. map_of m x = Some t \<longrightarrow> substitute_variables \<sigma> (Var x) = t"
  shows "\<exists>m'. formulas_specialization_map gs (map (substitute_variables \<sigma>) gs) m = Some m'"
  using assms
proof (induction gs arbitrary: m)
  case Nil
  then show ?case by simp
next
  case (Cons g gs)
  from formula_specialization_map_complete[OF refl Cons.prems] obtain m1 where
    m1: "formula_specialization_map g (substitute_variables \<sigma> g) m = Some m1"
    and a1: "\<forall>x t. map_of m1 x = Some t \<longrightarrow> substitute_variables \<sigma> (Var x) = t" by blast
  from Cons.IH[OF a1] m1 show ?case by simp
qed

lemma specialize_is_specialization_of:
  "is_specialization_of (specialize general \<sigma>) general"
proof -
  have "\<exists>m'. formulas_specialization_map (assumptions general @ [conclusion general])
      (map (substitute_variables \<sigma>) (assumptions general @ [conclusion general])) [] = Some m'"
    by (rule formulas_specialization_map_complete) simp
  then show ?thesis
    by (auto simp: is_specialization_of_def specialization_map_def specialize_def)
qed

section \<open>Lines stay valid when proofs are spliced\<close>

text \<open>
  A line copied into a longer proof, with its references moved by the offset at
  which it is laid, is still valid there: the lines it refers to carry the same
  formulas, and the rule set has only grown.
\<close>

lemma is_valid_iff:
  "is_valid p \<longleftrightarrow>
     lines p \<noteq> [] \<and> formula_of (last (lines p)) = conclusion (statement p) \<and>
     (\<forall>i < length (lines p). is_line_valid p i)"
  by (auto simp: is_valid_def list_all_iff)

lemma formula_of_shift_line [simp]: "formula_of (shift_line k l) = formula_of l"
  by (cases l) simp_all

lemma shift_line_0 [simp]: "shift_line 0 l = l"
  by (cases l) simp_all

lemma is_line_valid_shifted:
  assumes valid: "is_line_valid p i"
    and i: "i < length (lines p)"
    and copied: "\<forall>j \<le> i. lines q ! (j + k) = shift_line k (lines p ! j)"
    and asms: "set (assumptions (statement p)) \<subseteq> set (assumptions (statement q))"
    and rls: "rules p \<subseteq> rules q"
  shows "is_line_valid q (i + k)"
proof (cases "lines p ! i")
  case (AssumptionLine f)
  with copied have "lines q ! (i + k) = AssumptionLine f"
    by (metis le_refl shift_line.simps(1))
  with valid AssumptionLine asms show ?thesis
    by (auto simp: is_line_valid_def)
next
  case (Line f r refs)
  with copied have q: "lines q ! (i + k) = Line f r (map (\<lambda>a. a + k) refs)"
    by (metis le_refl shift_line.simps(2))
  from valid Line have r: "r \<in> rules p" and refs: "\<forall>a \<in> set refs. a < i"
    and inst: "is_specialization_of
        \<lparr>assumptions = map (\<lambda>a. formula_of (lines p ! a)) refs, conclusion = f\<rparr> r"
    by (auto simp: is_line_valid_def rule_for_line_def list_all_iff)
  have eq: "map ((\<lambda>a. formula_of (lines q ! a)) \<circ> (\<lambda>a. a + k)) refs
      = map (\<lambda>a. formula_of (lines p ! a)) refs"
  proof -
    have "formula_of (lines q ! (a + k)) = formula_of (lines p ! a)" if "a \<in> set refs" for a
    proof -
      from that refs have "a \<le> i" by auto
      with copied have "lines q ! (a + k) = shift_line k (lines p ! a)" by blast
      then show ?thesis by simp
    qed
    then show ?thesis by simp
  qed
  from r rls have "r \<in> rules q" by blast
  moreover from refs have "list_all (\<lambda>a. a < i + k) (map (\<lambda>a. a + k) refs)"
    by (simp add: list_all_iff)
  ultimately show ?thesis
    using q inst by (simp add: is_line_valid_def rule_for_line_def eq)
qed

lemma spliced_lines_valid:
  assumes v1: "is_valid P1" and v2: "is_valid P2"
    and a1: "assumptions (statement q) = assumptions (statement P1)"
    and a2: "assumptions (statement q) = assumptions (statement P2)"
    and r1: "rules P1 \<subseteq> rules q" and r2: "rules P2 \<subseteq> rules q"
    and ls: "lines q = lines P1 @ map (shift_line (length (lines P1))) (lines P2) @ rest"
    and i: "i < length (lines P1) + length (lines P2)"
  shows "is_line_valid q i"
proof (cases "i < length (lines P1)")
  case True
  have "\<forall>j \<le> i. lines q ! (j + 0) = shift_line 0 (lines P1 ! j)"
    using True by (simp add: ls nth_append)
  moreover from v1 True have "is_line_valid P1 i" by (simp add: is_valid_iff)
  ultimately have "is_line_valid q (i + 0)"
    using True a1 r1 by (intro is_line_valid_shifted[where p = P1]) auto
  then show ?thesis by simp
next
  case False
  define j where "j = i - length (lines P1)"
  with False i have j: "j < length (lines P2)" and ij: "i = j + length (lines P1)" by auto
  have "\<forall>j' \<le> j. lines q ! (j' + length (lines P1))
      = shift_line (length (lines P1)) (lines P2 ! j')"
    using j by (simp add: ls nth_append)
  moreover from v2 j have "is_line_valid P2 j" by (simp add: is_valid_iff)
  ultimately have "is_line_valid q (j + length (lines P1))"
    using j a2 r2 by (intro is_line_valid_shifted[where p = P2]) auto
  then show ?thesis by (simp add: ij)
qed

lemma is_line_valid_rule_line:
  assumes "lines q ! i = Line f r refs" and "r \<in> rules q" and "\<forall>a \<in> set refs. a < i"
    and "is_specialization_of
        \<lparr>assumptions = map (\<lambda>a. formula_of (lines q ! a)) refs, conclusion = f\<rparr> r"
  shows "is_line_valid q i"
  using assms by (simp add: is_line_valid_def rule_for_line_def list_all_iff)

lemma MP_instance: "is_specialization_of \<lparr>assumptions = [a, Implies a b], conclusion = b\<rparr> MP"
proof -
  have "specialize MP [(''p'', a), (''q'', b)] = \<lparr>assumptions = [a, Implies a b], conclusion = b\<rparr>"
    by (simp add: specialize_def MP_def)
  then show ?thesis by (metis specialize_is_specialization_of)
qed

lemma I2_instance:
  "is_specialization_of \<lparr>assumptions = [], conclusion = Implies (Neg a) (Implies a c)\<rparr> I2"
proof -
  have "specialize I2 [(''p'', a), (''q'', c)]
      = \<lparr>assumptions = [], conclusion = Implies (Neg a) (Implies a c)\<rparr>"
    by (simp add: specialize_def I2_def)
  then show ?thesis by (metis specialize_is_specialization_of)
qed

lemma formulas_specialization_map_length:
  "formulas_specialization_map gs ss m = Some m' \<Longrightarrow> length gs = length ss"
  by (induction gs ss m rule: formulas_specialization_map.induct)
     (auto split: option.splits)

lemma MP_line_has_two_references:
  assumes "is_line_valid p i" and "lines p ! i = Line f MP refs"
  shows "\<exists>a b. refs = [a, b] \<and> a < i \<and> b < i"
proof -
  from assms have bound: "\<forall>a \<in> set refs. a < i"
    and "is_specialization_of
        \<lparr>assumptions = map (\<lambda>a. formula_of (lines p ! a)) refs, conclusion = f\<rparr> MP"
    by (auto simp: is_line_valid_def rule_for_line_def list_all_iff)
  then obtain m where "formulas_specialization_map
      (assumptions MP @ [conclusion MP])
      (map (\<lambda>a. formula_of (lines p ! a)) refs @ [f]) [] = Some m"
    by (auto simp: is_specialization_of_def specialization_map_def)
  from formulas_specialization_map_length[OF this] have "length refs = 2"
    by (simp add: MP_def)
  then obtain a b where "refs = [a, b]"
    by (auto simp: length_Suc_conv numeral_2_eq_2)
  with bound show ?thesis by simp
qed

section \<open>Proving from opposites\<close>

lemma prove_from_opposites_result:
  assumes "is_valid Pa" and "is_valid Pn"
    and "assumptions (statement Pa) = assumptions (statement Pn)"
    and "Neg (conclusion (statement Pa)) = conclusion (statement Pn)"
    and "rules Pa = rules Pn"
  shows "prove_from_opposites Pa Pn C =
     Inr \<lparr>statement = \<lparr>assumptions = assumptions (statement Pa), conclusion = C\<rparr>,
          rules = rules Pa \<union> {MP, I2},
          lines =
            lines Pa @ map (shift_line (length (lines Pa))) (lines Pn) @
            [Line (Implies (Neg (conclusion (statement Pa)))
                     (Implies (conclusion (statement Pa)) C)) I2 [],
             Line (Implies (conclusion (statement Pa)) C) MP
               [length (lines Pa) + length (lines Pn) - 1,
                length (lines Pa) + length (lines Pn)],
             Line C MP
               [length (lines Pa) - 1, length (lines Pa) + length (lines Pn) + 1]]\<rparr>"
proof -
  from assms(1) have "lines Pa \<noteq> []" by (simp add: is_valid_iff)
  then have "length (lines Pa) - 1 + 1 = length (lines Pa)" by (cases "lines Pa") simp_all
  with assms show ?thesis
    by (simp add: prove_from_opposites_def Let_def)
qed

text \<open>
  Claim C7. For valid proofs \<open>Pa\<close> of "A" and \<open>Pn\<close> of "~A" with equal assumption
  lists and equal rule sets, and for every formula \<open>C\<close> (whatever its variables),
  \<^verbatim>\<open>prove_from_opposites\<close> returns a valid proof whose statement has the shared
  assumptions and the conclusion \<open>C\<close>, whose rule set is the shared rules together
  with \<^verbatim>\<open>MP\<close> and \<^verbatim>\<open>I2\<close>, and whose last line's formula is \<open>C\<close>.
\<close>

theorem prove_from_opposites_valid:
  assumes va: "is_valid Pa" and vn: "is_valid Pn"
    and asms: "assumptions (statement Pa) = assumptions (statement Pn)"
    and neg: "Neg (conclusion (statement Pa)) = conclusion (statement Pn)"
    and rls: "rules Pa = rules Pn"
  shows "\<exists>out. prove_from_opposites Pa Pn C = Inr out \<and> is_valid out \<and>
     statement out = \<lparr>assumptions = assumptions (statement Pa), conclusion = C\<rparr> \<and>
     rules out = rules Pa \<union> {MP, I2} \<and>
     formula_of (last (lines out)) = C"
proof -
  define A where "A = conclusion (statement Pa)"
  define n1 where "n1 = length (lines Pa)"
  define n2 where "n2 = length (lines Pn)"
  define rest where "rest =
     [Line (Implies (Neg A) (Implies A C)) I2 [],
      Line (Implies A C) MP [n1 + n2 - 1, n1 + n2],
      Line C MP [n1 - 1, n1 + n2 + 1]]"
  define out where "out =
     \<lparr>statement = \<lparr>assumptions = assumptions (statement Pa), conclusion = C\<rparr>,
      rules = rules Pa \<union> {MP, I2},
      lines = lines Pa @ map (shift_line n1) (lines Pn) @ rest\<rparr>"
  have res: "prove_from_opposites Pa Pn C = Inr out"
    using prove_from_opposites_result[OF va vn asms neg rls, of C]
    by (simp add: out_def rest_def A_def n1_def n2_def)
  have ls: "lines out = lines Pa @ map (shift_line (length (lines Pa))) (lines Pn) @ rest"
    by (simp add: out_def n1_def)
  have len: "length (lines out) = n1 + n2 + 3"
    by (simp add: out_def rest_def n1_def n2_def)
  from va have n1: "0 < n1" and lastA: "formula_of (lines Pa ! (n1 - 1)) = A"
    by (auto simp: is_valid_iff n1_def A_def last_conv_nth)
  from vn neg have n2: "0 < n2" and lastN: "formula_of (lines Pn ! (n2 - 1)) = Neg A"
    by (auto simp: is_valid_iff n2_def A_def last_conv_nth)
  have copied: "is_line_valid out i" if "i < n1 + n2" for i
    using that asms rls
    by (intro spliced_lines_valid[OF va vn _ _ _ _ ls]) (auto simp: out_def n1_def n2_def)
  have at_a: "formula_of (lines out ! (n1 - 1)) = A"
    using n1 lastA by (simp add: out_def nth_append n1_def)
  have at_n: "formula_of (lines out ! (n1 + n2 - 1)) = Neg A"
  proof -
    from n2 have idx: "n1 + n2 - 1 = length (lines Pa) + (n2 - 1)" by (simp add: n1_def)
    have "lines out ! (n1 + n2 - 1) = shift_line n1 (lines Pn ! (n2 - 1))"
      unfolding idx using n2
      by (simp add: out_def nth_append_length_plus nth_append n2_def)
    with lastN show ?thesis by simp
  qed
  have at0: "lines out ! (n1 + n2) = Line (Implies (Neg A) (Implies A C)) I2 []"
    by (simp add: out_def rest_def nth_append n1_def n2_def)
  have at1: "lines out ! (n1 + n2 + 1) = Line (Implies A C) MP [n1 + n2 - 1, n1 + n2]"
    by (simp add: out_def rest_def nth_append n1_def n2_def)
  have at2: "lines out ! (n1 + n2 + 2) = Line C MP [n1 - 1, n1 + n2 + 1]"
    by (simp add: out_def rest_def nth_append n1_def n2_def)
  have v0: "is_line_valid out (n1 + n2)"
  proof (rule is_line_valid_rule_line[OF at0])
    show "I2 \<in> rules out" by (simp add: out_def)
    show "\<forall>a \<in> set []. a < n1 + n2" by simp
    show "is_specialization_of
        \<lparr>assumptions = map (\<lambda>a. formula_of (lines out ! a)) [],
         conclusion = Implies (Neg A) (Implies A C)\<rparr> I2"
      by (simp only: list.map I2_instance)
  qed
  have v1: "is_line_valid out (n1 + n2 + 1)"
  proof (rule is_line_valid_rule_line[OF at1])
    show "MP \<in> rules out" by (simp add: out_def)
    show "\<forall>a \<in> set [n1 + n2 - 1, n1 + n2]. a < n1 + n2 + 1" by simp
    show "is_specialization_of
        \<lparr>assumptions = map (\<lambda>a. formula_of (lines out ! a)) [n1 + n2 - 1, n1 + n2],
         conclusion = Implies A C\<rparr> MP"
      by (simp only: list.map at_n at0 formula_of.simps MP_instance)
  qed
  have v2: "is_line_valid out (n1 + n2 + 2)"
  proof (rule is_line_valid_rule_line[OF at2])
    show "MP \<in> rules out" by (simp add: out_def)
    show "\<forall>a \<in> set [n1 - 1, n1 + n2 + 1]. a < n1 + n2 + 2" using n1 by simp
    show "is_specialization_of
        \<lparr>assumptions = map (\<lambda>a. formula_of (lines out ! a)) [n1 - 1, n1 + n2 + 1],
         conclusion = C\<rparr> MP"
      by (simp only: list.map at_a at1 formula_of.simps MP_instance)
  qed
  have all: "is_line_valid out i" if "i < length (lines out)" for i
  proof -
    from that len consider "i < n1 + n2" | "i = n1 + n2" | "i = n1 + n2 + 1" | "i = n1 + n2 + 2"
      by linarith
    then show ?thesis using copied v0 v1 v2 by cases auto
  qed
  have "is_valid out"
    using all by (simp add: is_valid_iff) (simp add: out_def rest_def)
  moreover have "formula_of (last (lines out)) = C" by (simp add: out_def rest_def)
  ultimately show ?thesis using res by (simp add: out_def)
qed

theorem prove_from_opposites_valid_witness:
  "is_valid proof_of_p \<and> is_valid proof_of_not_p \<and>
   assumptions (statement proof_of_p) = assumptions (statement proof_of_not_p) \<and>
   Neg (conclusion (statement proof_of_p)) = conclusion (statement proof_of_not_p) \<and>
   rules proof_of_p = rules proof_of_not_p \<and>
   (\<exists>out. prove_from_opposites proof_of_p proof_of_not_p (Var ''q'') = Inr out \<and> is_valid out \<and>
     statement out = \<lparr>assumptions = assumptions (statement proof_of_p), conclusion = Var ''q''\<rparr> \<and>
     rules out = rules proof_of_p \<union> {MP, I2} \<and>
     formula_of (last (lines out)) = Var ''q'')"
proof -
  have h1: "is_valid proof_of_p" by code_simp
  have h2: "is_valid proof_of_not_p" by code_simp
  have h3: "assumptions (statement proof_of_p) = assumptions (statement proof_of_not_p)"
    by (simp add: proof_of_p_def proof_of_not_p_def)
  have h4: "Neg (conclusion (statement proof_of_p)) = conclusion (statement proof_of_not_p)"
    by (simp add: proof_of_p_def proof_of_not_p_def)
  have h5: "rules proof_of_p = rules proof_of_not_p"
    by (simp add: proof_of_p_def proof_of_not_p_def)
  from prove_from_opposites_valid [OF h1 h2 h3 h4 h5, of "Var ''q''"] h1 h2 h3 h4 h5
  show ?thesis by blast
qed

section \<open>Proving a corollary\<close>

text \<open>
  Under its preconditions \<^verbatim>\<open>prove_corollary\<close> returns the antecedent proof's lines
  followed by two lines: the instance "(A->C)" of the conditional, and a Modus
  Ponens line. The source gives the first of them the \<^emph>\<open>specialized\<close> rule as its
  rule (\<^verbatim>\<open>Proof.Line(specialized_conditional.conclusion, specialized_conditional, [])\<close>),
  not \<^verbatim>\<open>conditional\<close>, while the rule set it returns holds \<^verbatim>\<open>conditional\<close>. The
  returned proof is therefore valid exactly when the instance is itself one of the
  permitted rules.
\<close>

lemma substitute_variables_Nil [simp]: "substitute_variables [] f = f"
  by (induction f) simp_all

lemma is_specialization_of_refl: "is_specialization_of r r"
proof -
  have "map (substitute_variables []) (assumptions r) = assumptions r"
    by (induction "assumptions r") (simp_all add: map_idI)
  then have "specialize r [] = r" by (simp add: specialize_def)
  then show ?thesis by (metis specialize_is_specialization_of)
qed

lemma copied_lines_valid:
  assumes v: "is_valid P"
    and a: "assumptions (statement q) = assumptions (statement P)"
    and r: "rules P \<subseteq> rules q"
    and ls: "lines q = lines P @ rest"
    and i: "i < length (lines P)"
  shows "is_line_valid q i"
proof -
  have "\<forall>j \<le> i. lines q ! (j + 0) = shift_line 0 (lines P ! j)"
    using i by (simp add: ls nth_append)
  moreover from v i have "is_line_valid P i" by (simp add: is_valid_iff)
  ultimately have "is_line_valid q (i + 0)"
    using i a r by (intro is_line_valid_shifted[where p = P]) auto
  then show ?thesis by simp
qed

lemma is_line_valid_rule_permitted:
  "is_line_valid q i \<Longrightarrow> lines q ! i = Line f r refs \<Longrightarrow> r \<in> rules q"
  by (simp add: is_line_valid_def)

lemma prove_corollary_result:
  assumes v: "is_valid P"
    and s: "is_specialization_of
       \<lparr>assumptions = [], conclusion = Implies (conclusion (statement P)) C\<rparr> R"
  shows "prove_corollary P C R =
     Inr \<lparr>statement = \<lparr>assumptions = assumptions (statement P), conclusion = C\<rparr>,
          rules = rules P \<union> {MP, R},
          lines =
            lines P @
            [Line (Implies (conclusion (statement P)) C)
               \<lparr>assumptions = [], conclusion = Implies (conclusion (statement P)) C\<rparr> [],
             Line C MP [length (lines P) - 1, length (lines P)]]\<rparr>"
proof -
  from s obtain m where m: "specialization_map R
      \<lparr>assumptions = [], conclusion = Implies (conclusion (statement P)) C\<rparr> = Some m"
    by (auto simp: is_specialization_of_def)
  from specialization_map_sound[OF m] have sp: "specialize R m =
      \<lparr>assumptions = [], conclusion = Implies (conclusion (statement P)) C\<rparr>" .
  from v have "lines P \<noteq> []" by (simp add: is_valid_iff)
  then have "length (lines P) - 1 + 1 = length (lines P)" by (cases "lines P") simp_all
  with v s m sp show ?thesis
    by (simp add: prove_corollary_def Let_def)
qed

lemma prove_corollary_valid_iff:
  assumes v: "is_valid P"
    and s: "is_specialization_of
       \<lparr>assumptions = [], conclusion = Implies (conclusion (statement P)) C\<rparr> R"
    and res: "prove_corollary P C R = Inr out"
  shows "is_valid out \<longleftrightarrow>
     \<lparr>assumptions = [], conclusion = Implies (conclusion (statement P)) C\<rparr>
       \<in> rules P \<union> {MP, R}"
proof -
  define A where "A = conclusion (statement P)"
  define n where "n = length (lines P)"
  define inst where "inst = \<lparr>assumptions = [], conclusion = Implies A C\<rparr>"
  define rest where "rest = [Line (Implies A C) inst [], Line C MP [n - 1, n]]"
  from prove_corollary_result[OF v s] res have out: "out =
     \<lparr>statement = \<lparr>assumptions = assumptions (statement P), conclusion = C\<rparr>,
      rules = rules P \<union> {MP, R}, lines = lines P @ rest\<rparr>"
    by (simp add: rest_def inst_def A_def n_def)
  have len: "length (lines out) = n + 2" by (simp add: out rest_def n_def)
  from v have n: "0 < n" and lastA: "formula_of (lines P ! (n - 1)) = A"
    by (auto simp: is_valid_iff n_def A_def last_conv_nth)
  have at_a: "formula_of (lines out ! (n - 1)) = A"
    using n lastA by (simp add: out nth_append n_def)
  have at0: "lines out ! n = Line (Implies A C) inst []"
    by (simp add: out rest_def nth_append n_def)
  have at1: "lines out ! (n + 1) = Line C MP [n - 1, n]"
    by (simp add: out rest_def nth_append n_def)
  have copied: "is_line_valid out i" if "i < n" for i
    using that by (intro copied_lines_valid[OF v _ _ _ ]) (auto simp: out n_def)
  have v1: "is_line_valid out (n + 1)"
  proof (rule is_line_valid_rule_line[OF at1])
    show "MP \<in> rules out" by (simp add: out)
    show "\<forall>a \<in> set [n - 1, n]. a < n + 1" by simp
    show "is_specialization_of
        \<lparr>assumptions = map (\<lambda>a. formula_of (lines out ! a)) [n - 1, n], conclusion = C\<rparr> MP"
      by (simp only: list.map at_a at0 formula_of.simps MP_instance)
  qed
  show ?thesis
  proof
    assume "is_valid out"
    with len have "is_line_valid out n" by (simp add: is_valid_iff)
    from is_line_valid_rule_permitted[OF this at0] show
      "\<lparr>assumptions = [], conclusion = Implies (conclusion (statement P)) C\<rparr>
         \<in> rules P \<union> {MP, R}"
      by (simp add: out inst_def A_def)
  next
    assume "\<lparr>assumptions = [], conclusion = Implies (conclusion (statement P)) C\<rparr>
       \<in> rules P \<union> {MP, R}"
    then have mem: "inst \<in> rules out" by (simp add: out inst_def A_def)
    have v0: "is_line_valid out n"
    proof (rule is_line_valid_rule_line[OF at0 mem])
      show "\<forall>a \<in> set []. a < n" by simp
      show "is_specialization_of
          \<lparr>assumptions = map (\<lambda>a. formula_of (lines out ! a)) [],
           conclusion = Implies A C\<rparr> inst"
        by (simp add: inst_def is_specialization_of_refl)
    qed
    have all: "is_line_valid out i" if "i < length (lines out)" for i
    proof -
      from that len consider "i < n" | "i = n" | "i = n + 1" by linarith
      then show ?thesis using copied v0 v1 by cases auto
    qed
    then show "is_valid out"
      by (simp add: is_valid_iff) (simp add: out rest_def)
  qed
qed

text \<open>
  Claim C4 says that for a valid proof \<open>P\<close> of "A", a formula \<open>C\<close> and an assumptionless
  rule \<open>R\<close> of which "(A->C)" is a specialization, \<^verbatim>\<open>prove_corollary\<close> returns a valid
  proof with \<open>P\<close>'s assumptions, conclusion \<open>C\<close> and rules \<open>P\<close>'s rules with \<^verbatim>\<open>MP\<close> and
  \<open>R\<close>. The code returns a proof with that statement and that rule set; it is valid
  if and only if the instance "(A->C)", as an assumptionless rule, is among
  those rules. With \<open>R = I1\<close> and the proof of "x", asked for "(y->x)", it is not.
\<close>

theorem prove_corollary_validity:
  assumes "is_valid P"
    and "is_specialization_of
       \<lparr>assumptions = [], conclusion = Implies (conclusion (statement P)) C\<rparr> R"
  shows "\<exists>out. prove_corollary P C R = Inr out \<and>
     statement out = \<lparr>assumptions = assumptions (statement P), conclusion = C\<rparr> \<and>
     rules out = rules P \<union> {MP, R} \<and>
     (is_valid out \<longleftrightarrow>
        \<lparr>assumptions = [], conclusion = Implies (conclusion (statement P)) C\<rparr>
          \<in> rules P \<union> {MP, R})"
proof -
  define out where "out =
     \<lparr>statement = \<lparr>assumptions = assumptions (statement P), conclusion = C\<rparr>,
      rules = rules P \<union> {MP, R},
      lines =
        lines P @
        [Line (Implies (conclusion (statement P)) C)
           \<lparr>assumptions = [], conclusion = Implies (conclusion (statement P)) C\<rparr> [],
         Line C MP [length (lines P) - 1, length (lines P)]]\<rparr>"
  have res: "prove_corollary P C R = Inr out"
    unfolding out_def by (rule prove_corollary_result[OF assms])
  have "statement out = \<lparr>assumptions = assumptions (statement P), conclusion = C\<rparr>"
    and "rules out = rules P \<union> {MP, R}"
    by (simp_all add: out_def)
  with res prove_corollary_valid_iff[OF assms res] show ?thesis by blast
qed

theorem prove_corollary_validity_witness:
  "is_valid proof_of_x \<and>
   is_specialization_of
     \<lparr>assumptions = [],
      conclusion = Implies (conclusion (statement proof_of_x)) (Implies (Var ''y'') (Var ''x''))\<rparr>
     I1 \<and>
   (\<exists>out. prove_corollary proof_of_x (Implies (Var ''y'') (Var ''x'')) I1 = Inr out \<and>
      lines out =
        [AssumptionLine (Var ''x''),
         Line (Implies (Var ''x'') (Implies (Var ''y'') (Var ''x'')))
           \<lparr>assumptions = [],
            conclusion = Implies (Var ''x'') (Implies (Var ''y'') (Var ''x''))\<rparr> [],
         Line (Implies (Var ''y'') (Var ''x'')) MP [0, 1]] \<and>
      rules out = {MP, I1} \<and>
      \<not> is_valid out)"
proof -
  have v: "is_valid proof_of_x" by code_simp
  have s: "is_specialization_of
     \<lparr>assumptions = [],
      conclusion = Implies (conclusion (statement proof_of_x)) (Implies (Var ''y'') (Var ''x''))\<rparr>
     I1"
    by code_simp
  have n: "\<lparr>assumptions = [],
      conclusion = Implies (conclusion (statement proof_of_x)) (Implies (Var ''y'') (Var ''x''))\<rparr>
     \<notin> rules proof_of_x \<union> {MP, I1}"
    by (simp add: proof_of_x_def MP_def I1_def)
  have l: "prove_corollary proof_of_x (Implies (Var ''y'') (Var ''x'')) I1 =
     Inr \<lparr>statement =
            \<lparr>assumptions = [Var ''x'', Implies (Var ''x'') (Var ''y'')],
             conclusion = Implies (Var ''y'') (Var ''x'')\<rparr>,
          rules = {MP, I1},
          lines =
        [AssumptionLine (Var ''x''),
         Line (Implies (Var ''x'') (Implies (Var ''y'') (Var ''x'')))
           \<lparr>assumptions = [],
            conclusion = Implies (Var ''x'') (Implies (Var ''y'') (Var ''x''))\<rparr> [],
         Line (Implies (Var ''y'') (Var ''x'')) MP [0, 1]]\<rparr>"
    by code_simp
  from prove_corollary_validity [OF v s] obtain out where
    res: "prove_corollary proof_of_x (Implies (Var ''y'') (Var ''x'')) I1 = Inr out"
    and iff: "is_valid out \<longleftrightarrow>
      \<lparr>assumptions = [],
       conclusion = Implies (conclusion (statement proof_of_x)) (Implies (Var ''y'') (Var ''x''))\<rparr>
      \<in> rules proof_of_x \<union> {MP, I1}"
    by blast
  from iff n have nv: "\<not> is_valid out" by blast
  from res l have "lines out =
        [AssumptionLine (Var ''x''),
         Line (Implies (Var ''x'') (Implies (Var ''y'') (Var ''x'')))
           \<lparr>assumptions = [],
            conclusion = Implies (Var ''x'') (Implies (Var ''y'') (Var ''x''))\<rparr> [],
         Line (Implies (Var ''y'') (Var ''x'')) MP [0, 1]]"
    and "rules out = {MP, I1}"
    by auto
  with v s res nv show ?thesis by blast
qed

section \<open>Combining two proofs\<close>

lemma combine_proofs_result:
  assumes v1: "is_valid P1" and v2: "is_valid P2"
    and a: "assumptions (statement P1) = assumptions (statement P2)"
    and r: "rules P1 = rules P2"
    and s: "is_specialization_of
       \<lparr>assumptions = [],
        conclusion = Implies (conclusion (statement P1))
                       (Implies (conclusion (statement P2)) C)\<rparr> R"
  shows "combine_proofs P1 P2 C R =
     Inr \<lparr>statement = \<lparr>assumptions = assumptions (statement P1), conclusion = C\<rparr>,
          rules = rules P1 \<union> {MP, R},
          lines =
            lines P1 @ map (shift_line (length (lines P1))) (lines P2) @
            [Line (Implies (conclusion (statement P1)) (Implies (conclusion (statement P2)) C))
               \<lparr>assumptions = [],
                conclusion = Implies (conclusion (statement P1))
                               (Implies (conclusion (statement P2)) C)\<rparr> [],
             Line (Implies (conclusion (statement P2)) C) MP
               [length (lines P1) - 1, length (lines P1) + length (lines P2)],
             Line C MP
               [length (lines P1) + length (lines P2) - 1,
                length (lines P1) + length (lines P2) + 1]]\<rparr>"
proof -
  from s obtain m where m: "specialization_map R
      \<lparr>assumptions = [],
       conclusion = Implies (conclusion (statement P1))
                      (Implies (conclusion (statement P2)) C)\<rparr> = Some m"
    by (auto simp: is_specialization_of_def)
  from specialization_map_sound[OF m] have sp: "specialize R m =
      \<lparr>assumptions = [],
       conclusion = Implies (conclusion (statement P1))
                      (Implies (conclusion (statement P2)) C)\<rparr>" .
  from v1 v2 a r s m sp show ?thesis
    by (simp add: combine_proofs_def Let_def)
qed

lemma combine_proofs_valid_iff:
  assumes v1: "is_valid P1" and v2: "is_valid P2"
    and a: "assumptions (statement P1) = assumptions (statement P2)"
    and r: "rules P1 = rules P2"
    and s: "is_specialization_of
       \<lparr>assumptions = [],
        conclusion = Implies (conclusion (statement P1))
                       (Implies (conclusion (statement P2)) C)\<rparr> R"
    and res: "combine_proofs P1 P2 C R = Inr out"
  shows "is_valid out \<longleftrightarrow>
     \<lparr>assumptions = [],
      conclusion = Implies (conclusion (statement P1))
                     (Implies (conclusion (statement P2)) C)\<rparr>
       \<in> rules P1 \<union> {MP, R}"
proof -
  define A where "A = conclusion (statement P1)"
  define B where "B = conclusion (statement P2)"
  define n1 where "n1 = length (lines P1)"
  define n2 where "n2 = length (lines P2)"
  define inst where "inst = \<lparr>assumptions = [], conclusion = Implies A (Implies B C)\<rparr>"
  define rest where "rest =
     [Line (Implies A (Implies B C)) inst [],
      Line (Implies B C) MP [n1 - 1, n1 + n2],
      Line C MP [n1 + n2 - 1, n1 + n2 + 1]]"
  from combine_proofs_result[OF v1 v2 a r s] res have out: "out =
     \<lparr>statement = \<lparr>assumptions = assumptions (statement P1), conclusion = C\<rparr>,
      rules = rules P1 \<union> {MP, R},
      lines = lines P1 @ map (shift_line n1) (lines P2) @ rest\<rparr>"
    by (simp add: rest_def inst_def A_def B_def n1_def n2_def)
  have ls: "lines out = lines P1 @ map (shift_line (length (lines P1))) (lines P2) @ rest"
    by (simp add: out n1_def)
  have len: "length (lines out) = n1 + n2 + 3"
    by (simp add: out rest_def n1_def n2_def)
  from v1 have n1: "0 < n1" and lastA: "formula_of (lines P1 ! (n1 - 1)) = A"
    by (auto simp: is_valid_iff n1_def A_def last_conv_nth)
  from v2 have n2: "0 < n2" and lastB: "formula_of (lines P2 ! (n2 - 1)) = B"
    by (auto simp: is_valid_iff n2_def B_def last_conv_nth)
  have copied: "is_line_valid out i" if "i < n1 + n2" for i
    using that a r
    by (intro spliced_lines_valid[OF v1 v2 _ _ _ _ ls]) (auto simp: out n1_def n2_def)
  have at_a: "formula_of (lines out ! (n1 - 1)) = A"
    using n1 lastA by (simp add: out nth_append n1_def)
  have at_b: "formula_of (lines out ! (n1 + n2 - 1)) = B"
  proof -
    from n2 have idx: "n1 + n2 - 1 = length (lines P1) + (n2 - 1)" by (simp add: n1_def)
    have "lines out ! (n1 + n2 - 1) = shift_line n1 (lines P2 ! (n2 - 1))"
      unfolding idx using n2
      by (simp add: out nth_append_length_plus nth_append n2_def)
    with lastB show ?thesis by simp
  qed
  have at0: "lines out ! (n1 + n2) = Line (Implies A (Implies B C)) inst []"
    by (simp add: out rest_def nth_append n1_def n2_def)
  have at1: "lines out ! (n1 + n2 + 1) = Line (Implies B C) MP [n1 - 1, n1 + n2]"
    by (simp add: out rest_def nth_append n1_def n2_def)
  have at2: "lines out ! (n1 + n2 + 2) = Line C MP [n1 + n2 - 1, n1 + n2 + 1]"
    by (simp add: out rest_def nth_append n1_def n2_def)
  have w1: "is_line_valid out (n1 + n2 + 1)"
  proof (rule is_line_valid_rule_line[OF at1])
    show "MP \<in> rules out" by (simp add: out)
    show "\<forall>a \<in> set [n1 - 1, n1 + n2]. a < n1 + n2 + 1" using n1 by simp
    show "is_specialization_of
        \<lparr>assumptions = map (\<lambda>a. formula_of (lines out ! a)) [n1 - 1, n1 + n2],
         conclusion = Implies B C\<rparr> MP"
      by (simp only: list.map at_a at0 formula_of.simps MP_instance)
  qed
  have w2: "is_line_valid out (n1 + n2 + 2)"
  proof (rule is_line_valid_rule_line[OF at2])
    show "MP \<in> rules out" by (simp add: out)
    show "\<forall>a \<in> set [n1 + n2 - 1, n1 + n2 + 1]. a < n1 + n2 + 2" by simp
    show "is_specialization_of
        \<lparr>assumptions = map (\<lambda>a. formula_of (lines out ! a)) [n1 + n2 - 1, n1 + n2 + 1],
         conclusion = C\<rparr> MP"
      by (simp only: list.map at_b at1 formula_of.simps MP_instance)
  qed
  show ?thesis
  proof
    assume "is_valid out"
    with len have "is_line_valid out (n1 + n2)" by (simp add: is_valid_iff)
    from is_line_valid_rule_permitted[OF this at0] show
      "\<lparr>assumptions = [],
        conclusion = Implies (conclusion (statement P1))
                       (Implies (conclusion (statement P2)) C)\<rparr>
         \<in> rules P1 \<union> {MP, R}"
      by (simp add: out inst_def A_def B_def)
  next
    assume "\<lparr>assumptions = [],
        conclusion = Implies (conclusion (statement P1))
                       (Implies (conclusion (statement P2)) C)\<rparr>
       \<in> rules P1 \<union> {MP, R}"
    then have mem: "inst \<in> rules out" by (simp add: out inst_def A_def B_def)
    have w0: "is_line_valid out (n1 + n2)"
    proof (rule is_line_valid_rule_line[OF at0 mem])
      show "\<forall>a \<in> set []. a < n1 + n2" by simp
      show "is_specialization_of
          \<lparr>assumptions = map (\<lambda>a. formula_of (lines out ! a)) [],
           conclusion = Implies A (Implies B C)\<rparr> inst"
        by (simp add: inst_def is_specialization_of_refl)
    qed
    have all: "is_line_valid out i" if "i < length (lines out)" for i
    proof -
      from that len consider "i < n1 + n2" | "i = n1 + n2" | "i = n1 + n2 + 1" | "i = n1 + n2 + 2"
        by linarith
      then show ?thesis using copied w0 w1 w2 by cases auto
    qed
    then show "is_valid out"
      by (simp add: is_valid_iff) (simp add: out rest_def)
  qed
qed

lemma spliced_nth:
  assumes ls: "ls = xs @ map (shift_line (length xs)) ys @ [l0, l1, l2]"
    and xs: "xs \<noteq> []" and ys: "ys \<noteq> []"
  shows "length ls = length xs + length ys + 3"
    and "ls ! (length xs + length ys) = l0"
    and "ls ! (length xs + length ys + 1) = l1"
    and "ls ! (length xs + length ys + 2) = l2"
    and "formula_of (ls ! (length xs - 1)) = formula_of (last xs)"
    and "formula_of (ls ! (length xs + length ys - 1)) = formula_of (last ys)"
proof -
  show "length ls = length xs + length ys + 3" by (simp add: ls)
  show "ls ! (length xs + length ys) = l0" by (simp add: ls nth_append)
  show "ls ! (length xs + length ys + 1) = l1" by (simp add: ls nth_append)
  show "ls ! (length xs + length ys + 2) = l2" by (simp add: ls nth_append)
  show "formula_of (ls ! (length xs - 1)) = formula_of (last xs)"
    using xs by (simp add: ls nth_append last_conv_nth)
  from ys have "0 < length ys" by simp
  then have idx: "length xs + length ys - 1 = length xs + (length ys - 1)" by linarith
  have "ls ! (length xs + length ys - 1) = shift_line (length xs) (ys ! (length ys - 1))"
    unfolding idx using ys by (simp add: ls nth_append_length_plus nth_append)
  then show "formula_of (ls ! (length xs + length ys - 1)) = formula_of (last ys)"
    using ys by (simp add: last_conv_nth)
qed

lemma extended_nth:
  assumes ls: "ls = xs @ [l0, l1]" and xs: "xs \<noteq> []"
  shows "length ls = length xs + 2"
    and "ls ! length xs = l0"
    and "ls ! (length xs + 1) = l1"
    and "formula_of (ls ! (length xs - 1)) = formula_of (last xs)"
  using xs by (simp_all add: ls nth_append last_conv_nth)

text \<open>
  Claim C5 says that for valid proofs \<open>P1\<close> of "A" and \<open>P2\<close> of "B" with equal
  assumptions and rules, a formula \<open>C\<close> and an assumptionless rule \<open>R\<close> of which
  "(A->(B->C))" is a specialization, \<^verbatim>\<open>combine_proofs\<close> returns a valid proof with
  \<open>P1\<close>'s assumptions, conclusion \<open>C\<close>, the shared rules with \<^verbatim>\<open>MP\<close> and \<open>R\<close>, and as many
  lines as the two proofs have plus three. The code returns a proof with that
  statement, that rule set and that many lines; it is valid if and only if the
  instance "(A->(B->C))", as an assumptionless rule, is among those rules. With
  \<open>R = I1\<close> and the proofs of "x" and "y", asked for "x", it is not.
\<close>

theorem combine_proofs_validity:
  assumes "is_valid P1" and "is_valid P2"
    and "assumptions (statement P1) = assumptions (statement P2)"
    and "rules P1 = rules P2"
    and "is_specialization_of
       \<lparr>assumptions = [],
        conclusion = Implies (conclusion (statement P1))
                       (Implies (conclusion (statement P2)) C)\<rparr> R"
  shows "\<exists>out. combine_proofs P1 P2 C R = Inr out \<and>
     statement out = \<lparr>assumptions = assumptions (statement P1), conclusion = C\<rparr> \<and>
     rules out = rules P1 \<union> {MP, R} \<and>
     length (lines out) = length (lines P1) + length (lines P2) + 3 \<and>
     (is_valid out \<longleftrightarrow>
        \<lparr>assumptions = [],
         conclusion = Implies (conclusion (statement P1))
                        (Implies (conclusion (statement P2)) C)\<rparr>
          \<in> rules P1 \<union> {MP, R})"
proof -
  define out where "out =
     \<lparr>statement = \<lparr>assumptions = assumptions (statement P1), conclusion = C\<rparr>,
      rules = rules P1 \<union> {MP, R},
      lines =
        lines P1 @ map (shift_line (length (lines P1))) (lines P2) @
        [Line (Implies (conclusion (statement P1)) (Implies (conclusion (statement P2)) C))
           \<lparr>assumptions = [],
            conclusion = Implies (conclusion (statement P1))
                           (Implies (conclusion (statement P2)) C)\<rparr> [],
         Line (Implies (conclusion (statement P2)) C) MP
           [length (lines P1) - 1, length (lines P1) + length (lines P2)],
         Line C MP
           [length (lines P1) + length (lines P2) - 1,
            length (lines P1) + length (lines P2) + 1]]\<rparr>"
  have res: "combine_proofs P1 P2 C R = Inr out"
    unfolding out_def by (rule combine_proofs_result[OF assms])
  have "statement out = \<lparr>assumptions = assumptions (statement P1), conclusion = C\<rparr>"
    and "rules out = rules P1 \<union> {MP, R}"
    and "length (lines out) = length (lines P1) + length (lines P2) + 3"
    by (simp_all add: out_def)
  with res combine_proofs_valid_iff[OF assms res] show ?thesis by blast
qed

theorem combine_proofs_validity_witness:
  "is_valid proof_of_x \<and> is_valid proof_of_y \<and>
   assumptions (statement proof_of_x) = assumptions (statement proof_of_y) \<and>
   rules proof_of_x = rules proof_of_y \<and>
   is_specialization_of
     \<lparr>assumptions = [],
      conclusion = Implies (conclusion (statement proof_of_x))
                     (Implies (conclusion (statement proof_of_y)) (Var ''x''))\<rparr> I1 \<and>
   (\<exists>out. combine_proofs proof_of_x proof_of_y (Var ''x'') I1 = Inr out \<and>
      lines out ! 4 =
        Line (Implies (Var ''x'') (Implies (Var ''y'') (Var ''x'')))
          \<lparr>assumptions = [],
           conclusion = Implies (Var ''x'') (Implies (Var ''y'') (Var ''x''))\<rparr> [] \<and>
      rules out = {MP, I1} \<and>
      length (lines out) = 7 \<and>
      \<not> is_valid out)"
proof -
  have v1: "is_valid proof_of_x" by code_simp
  have v2: "is_valid proof_of_y" by code_simp
  have a: "assumptions (statement proof_of_x) = assumptions (statement proof_of_y)"
    by (simp add: proof_of_x_def proof_of_y_def)
  have r: "rules proof_of_x = rules proof_of_y"
    by (simp add: proof_of_x_def proof_of_y_def)
  have s: "is_specialization_of
     \<lparr>assumptions = [],
      conclusion = Implies (conclusion (statement proof_of_x))
                     (Implies (conclusion (statement proof_of_y)) (Var ''x''))\<rparr> I1"
    by code_simp
  have n: "\<lparr>assumptions = [],
      conclusion = Implies (conclusion (statement proof_of_x))
                     (Implies (conclusion (statement proof_of_y)) (Var ''x''))\<rparr>
     \<notin> rules proof_of_x \<union> {MP, I1}"
    by (simp add: proof_of_x_def proof_of_y_def MP_def I1_def)
  have l: "case combine_proofs proof_of_x proof_of_y (Var ''x'') I1 of
      Inl e \<Rightarrow> False
    | Inr out \<Rightarrow>
        lines out ! 4 =
          Line (Implies (Var ''x'') (Implies (Var ''y'') (Var ''x'')))
            \<lparr>assumptions = [],
             conclusion = Implies (Var ''x'') (Implies (Var ''y'') (Var ''x''))\<rparr> [] \<and>
        rules out = {MP, I1} \<and> length (lines out) = 7"
    by code_simp
  from combine_proofs_validity [OF v1 v2 a r s] obtain out where
    res: "combine_proofs proof_of_x proof_of_y (Var ''x'') I1 = Inr out"
    and iff: "is_valid out \<longleftrightarrow>
      \<lparr>assumptions = [],
       conclusion = Implies (conclusion (statement proof_of_x))
                      (Implies (conclusion (statement proof_of_y)) (Var ''x''))\<rparr>
      \<in> rules proof_of_x \<union> {MP, I1}"
    by blast
  from iff n have nv: "\<not> is_valid out" by blast
  from res l have "lines out ! 4 =
        Line (Implies (Var ''x'') (Implies (Var ''y'') (Var ''x'')))
          \<lparr>assumptions = [],
           conclusion = Implies (Var ''x'') (Implies (Var ''y'') (Var ''x''))\<rparr> []"
    and "rules out = {MP, I1}" and "length (lines out) = 7"
    by simp_all
  with v1 v2 a r s res nv show ?thesis by blast
qed

text \<open>
  Claim C6, as amended. Under the preconditions of \<^verbatim>\<open>combine_proofs\<close> the output line
  sequence is, in order: the first proof's lines as they are, at their own indices;
  the second proof's lines with every reference moved up by the first proof's
  length (assumption lines unchanged); the line of the instance "(A->(B->C))", with
  no references; a Modus Ponens line deriving "(B->C)" whose references are the
  last line of the first proof (which proves "A") and the instance line; and a
  final Modus Ponens line deriving \<open>C\<close> whose references are the last line of the
  moved second proof (which proves "B") and the "(B->C)" line. The claim as written
  has the two antecedent references the other way round (the last line of the
  second proof for the first Modus Ponens line, the last line of the first proof
  for the final one); the counterexample shows that this is not what is returned
  for the proofs of "x" and "y".
\<close>

theorem combine_proofs_line_sequence:
  assumes v1: "is_valid P1" and v2: "is_valid P2"
    and a: "assumptions (statement P1) = assumptions (statement P2)"
    and r: "rules P1 = rules P2"
    and s: "is_specialization_of
       \<lparr>assumptions = [],
        conclusion = Implies (conclusion (statement P1))
                       (Implies (conclusion (statement P2)) C)\<rparr> R"
  shows "\<exists>out rule_of_instance. combine_proofs P1 P2 C R = Inr out \<and>
     lines out =
       lines P1 @ map (shift_line (length (lines P1))) (lines P2) @
       [Line (Implies (conclusion (statement P1)) (Implies (conclusion (statement P2)) C))
          rule_of_instance [],
        Line (Implies (conclusion (statement P2)) C) MP
          [length (lines P1) - 1, length (lines P1) + length (lines P2)],
        Line C MP
          [length (lines P1) + length (lines P2) - 1,
           length (lines P1) + length (lines P2) + 1]] \<and>
     formula_of (lines out ! (length (lines P1) - 1)) = conclusion (statement P1) \<and>
     formula_of (lines out ! (length (lines P1) + length (lines P2) - 1)) =
       conclusion (statement P2)"
proof -
  define inst where "inst =
     \<lparr>assumptions = [],
      conclusion = Implies (conclusion (statement P1))
                     (Implies (conclusion (statement P2)) C)\<rparr>"
  define ls where "ls =
       lines P1 @ map (shift_line (length (lines P1))) (lines P2) @
       [Line (Implies (conclusion (statement P1)) (Implies (conclusion (statement P2)) C))
          inst [],
        Line (Implies (conclusion (statement P2)) C) MP
          [length (lines P1) - 1, length (lines P1) + length (lines P2)],
        Line C MP
          [length (lines P1) + length (lines P2) - 1,
           length (lines P1) + length (lines P2) + 1]]"
  define out where "out =
     \<lparr>statement = \<lparr>assumptions = assumptions (statement P1), conclusion = C\<rparr>,
      rules = rules P1 \<union> {MP, R}, lines = ls\<rparr>"
  have res: "combine_proofs P1 P2 C R = Inr out"
    unfolding out_def ls_def inst_def by (rule combine_proofs_result[OF assms])
  from v1 have ne1: "lines P1 \<noteq> []"
    and l1: "formula_of (last (lines P1)) = conclusion (statement P1)"
    by (simp_all add: is_valid_iff)
  from v2 have ne2: "lines P2 \<noteq> []"
    and l2: "formula_of (last (lines P2)) = conclusion (statement P2)"
    by (simp_all add: is_valid_iff)
  have f1: "formula_of (ls ! (length (lines P1) - 1)) = conclusion (statement P1)"
    using spliced_nth(5)[OF ls_def ne1 ne2] l1 by simp
  have f2: "formula_of (ls ! (length (lines P1) + length (lines P2) - 1)) =
       conclusion (statement P2)"
    using spliced_nth(6)[OF ls_def ne1 ne2] l2 by simp
  have lo: "lines out = ls" by (simp add: out_def)
  show ?thesis
  proof (intro exI conjI)
    show "combine_proofs P1 P2 C R = Inr out" by (rule res)
    show "lines out =
       lines P1 @ map (shift_line (length (lines P1))) (lines P2) @
       [Line (Implies (conclusion (statement P1)) (Implies (conclusion (statement P2)) C))
          inst [],
        Line (Implies (conclusion (statement P2)) C) MP
          [length (lines P1) - 1, length (lines P1) + length (lines P2)],
        Line C MP
          [length (lines P1) + length (lines P2) - 1,
           length (lines P1) + length (lines P2) + 1]]"
      unfolding lo by (rule ls_def)
    show "formula_of (lines out ! (length (lines P1) - 1)) = conclusion (statement P1)"
      unfolding lo by (rule f1)
    show "formula_of (lines out ! (length (lines P1) + length (lines P2) - 1)) =
       conclusion (statement P2)"
      unfolding lo by (rule f2)
  qed
qed

theorem combine_proofs_line_sequence_witness:
  "is_valid proof_of_x \<and> is_valid proof_of_y \<and>
   assumptions (statement proof_of_x) = assumptions (statement proof_of_y) \<and>
   rules proof_of_x = rules proof_of_y \<and>
   is_specialization_of
     \<lparr>assumptions = [],
      conclusion = Implies (conclusion (statement proof_of_x))
                     (Implies (conclusion (statement proof_of_y)) (Var ''x''))\<rparr> I1 \<and>
   (\<exists>out rule_of_instance. combine_proofs proof_of_x proof_of_y (Var ''x'') I1 = Inr out \<and>
      lines out =
        [AssumptionLine (Var ''x''),
         AssumptionLine (Var ''x''),
         AssumptionLine (Implies (Var ''x'') (Var ''y'')),
         Line (Var ''y'') MP [1, 2],
         Line (Implies (Var ''x'') (Implies (Var ''y'') (Var ''x''))) rule_of_instance [],
         Line (Implies (Var ''y'') (Var ''x'')) MP [0, 4],
         Line (Var ''x'') MP [3, 5]])"
proof -
  have v1: "is_valid proof_of_x" by code_simp
  have v2: "is_valid proof_of_y" by code_simp
  have a: "assumptions (statement proof_of_x) = assumptions (statement proof_of_y)"
    by (simp add: proof_of_x_def proof_of_y_def)
  have r: "rules proof_of_x = rules proof_of_y"
    by (simp add: proof_of_x_def proof_of_y_def)
  have s: "is_specialization_of
     \<lparr>assumptions = [],
      conclusion = Implies (conclusion (statement proof_of_x))
                     (Implies (conclusion (statement proof_of_y)) (Var ''x''))\<rparr> I1"
    by code_simp
  from combine_proofs_line_sequence [OF v1 v2 a r s] obtain out rule_of_instance where
    res: "combine_proofs proof_of_x proof_of_y (Var ''x'') I1 = Inr out"
    and ls: "lines out =
       lines proof_of_x @ map (shift_line (length (lines proof_of_x))) (lines proof_of_y) @
       [Line (Implies (conclusion (statement proof_of_x))
                (Implies (conclusion (statement proof_of_y)) (Var ''x'')))
          rule_of_instance [],
        Line (Implies (conclusion (statement proof_of_y)) (Var ''x'')) MP
          [length (lines proof_of_x) - 1, length (lines proof_of_x) + length (lines proof_of_y)],
        Line (Var ''x'') MP
          [length (lines proof_of_x) + length (lines proof_of_y) - 1,
           length (lines proof_of_x) + length (lines proof_of_y) + 1]]"
    by blast
  from ls have "lines out =
        [AssumptionLine (Var ''x''),
         AssumptionLine (Var ''x''),
         AssumptionLine (Implies (Var ''x'') (Var ''y'')),
         Line (Var ''y'') MP [1, 2],
         Line (Implies (Var ''x'') (Implies (Var ''y'') (Var ''x''))) rule_of_instance [],
         Line (Implies (Var ''y'') (Var ''x'')) MP [0, 4],
         Line (Var ''x'') MP [3, 5]]"
    by (simp add: proof_of_x_def proof_of_y_def)
  with v1 v2 a r s res show ?thesis by blast
qed

theorem combine_proofs_line_sequence_counterexample:
  "\<not> (\<exists>out rule_of_instance. combine_proofs proof_of_x proof_of_y (Var ''x'') I1 = Inr out \<and>
      lines out =
        lines proof_of_x @ map (shift_line (length (lines proof_of_x))) (lines proof_of_y) @
        [Line (Implies (conclusion (statement proof_of_x))
                 (Implies (conclusion (statement proof_of_y)) (Var ''x'')))
           rule_of_instance [],
         Line (Implies (conclusion (statement proof_of_y)) (Var ''x'')) MP
           [length (lines proof_of_x) + length (lines proof_of_y) - 1,
            length (lines proof_of_x) + length (lines proof_of_y)],
         Line (Var ''x'') MP
           [length (lines proof_of_x) - 1,
            length (lines proof_of_x) + length (lines proof_of_y) + 1]])"
proof -
  have l: "case combine_proofs proof_of_x proof_of_y (Var ''x'') I1 of
      Inl e \<Rightarrow> False
    | Inr out \<Rightarrow> lines out ! 5 = Line (Implies (Var ''y'') (Var ''x'')) MP [0, 4]"
    by code_simp
  show ?thesis
  proof
    assume "\<exists>out rule_of_instance. combine_proofs proof_of_x proof_of_y (Var ''x'') I1 = Inr out \<and>
      lines out =
        lines proof_of_x @ map (shift_line (length (lines proof_of_x))) (lines proof_of_y) @
        [Line (Implies (conclusion (statement proof_of_x))
                 (Implies (conclusion (statement proof_of_y)) (Var ''x'')))
           rule_of_instance [],
         Line (Implies (conclusion (statement proof_of_y)) (Var ''x'')) MP
           [length (lines proof_of_x) + length (lines proof_of_y) - 1,
            length (lines proof_of_x) + length (lines proof_of_y)],
         Line (Var ''x'') MP
           [length (lines proof_of_x) - 1,
            length (lines proof_of_x) + length (lines proof_of_y) + 1]]"
    then obtain out rule_of_instance where
      res: "combine_proofs proof_of_x proof_of_y (Var ''x'') I1 = Inr out"
      and ls: "lines out =
        lines proof_of_x @ map (shift_line (length (lines proof_of_x))) (lines proof_of_y) @
        [Line (Implies (conclusion (statement proof_of_x))
                 (Implies (conclusion (statement proof_of_y)) (Var ''x'')))
           rule_of_instance [],
         Line (Implies (conclusion (statement proof_of_y)) (Var ''x'')) MP
           [length (lines proof_of_x) + length (lines proof_of_y) - 1,
            length (lines proof_of_x) + length (lines proof_of_y)],
         Line (Var ''x'') MP
           [length (lines proof_of_x) - 1,
            length (lines proof_of_x) + length (lines proof_of_y) + 1]]"
      by blast
    from ls have "lines out ! 5 = Line (Implies (Var ''y'') (Var ''x'')) MP [3, 4]"
      by (simp add: proof_of_x_def proof_of_y_def)
    moreover from res l have "lines out ! 5 = Line (Implies (Var ''y'') (Var ''x'')) MP [0, 4]"
      by simp
    ultimately show False by simp
  qed
qed

section \<open>The references of the Modus Ponens lines\<close>

text \<open>
  What the three splicing maneuvers append after the copied lines, read off the
  returned line sequence: the position of each appended Modus Ponens line, its
  two references, and the formulas on the lines they name.
\<close>

lemma prove_corollary_emitted:
  assumes v: "is_valid P"
    and s: "is_specialization_of
       \<lparr>assumptions = [], conclusion = Implies (conclusion (statement P)) C\<rparr> R"
  shows "\<exists>out. prove_corollary P C R = Inr out \<and>
     length (lines out) = length (lines P) + 2 \<and>
     lines out ! (length (lines P) + 1) = Line C MP [length (lines P) - 1, length (lines P)] \<and>
     formula_of (lines out ! (length (lines P) - 1)) = conclusion (statement P) \<and>
     formula_of (lines out ! length (lines P)) = Implies (conclusion (statement P)) C"
proof -
  define ls where "ls =
     lines P @
     [Line (Implies (conclusion (statement P)) C)
        \<lparr>assumptions = [], conclusion = Implies (conclusion (statement P)) C\<rparr> [],
      Line C MP [length (lines P) - 1, length (lines P)]]"
  define out where "out =
     \<lparr>statement = \<lparr>assumptions = assumptions (statement P), conclusion = C\<rparr>,
      rules = rules P \<union> {MP, R}, lines = ls\<rparr>"
  have res: "prove_corollary P C R = Inr out"
    unfolding out_def ls_def by (rule prove_corollary_result[OF assms])
  from v have ne: "lines P \<noteq> []"
    and l: "formula_of (last (lines P)) = conclusion (statement P)"
    by (simp_all add: is_valid_iff)
  have lo: "lines out = ls" by (simp add: out_def)
  note nth = extended_nth[OF ls_def ne]
  show ?thesis
  proof (intro exI conjI)
    show "prove_corollary P C R = Inr out" by (rule res)
    show "length (lines out) = length (lines P) + 2" unfolding lo by (rule nth(1))
    show "lines out ! (length (lines P) + 1) = Line C MP [length (lines P) - 1, length (lines P)]"
      unfolding lo by (rule nth(3))
    show "formula_of (lines out ! (length (lines P) - 1)) = conclusion (statement P)"
      unfolding lo using nth(4) l by simp
    show "formula_of (lines out ! length (lines P)) = Implies (conclusion (statement P)) C"
      unfolding lo using nth(2) by simp
  qed
qed

lemma combine_proofs_emitted:
  assumes v1: "is_valid P1" and v2: "is_valid P2"
    and a: "assumptions (statement P1) = assumptions (statement P2)"
    and r: "rules P1 = rules P2"
    and s: "is_specialization_of
       \<lparr>assumptions = [],
        conclusion = Implies (conclusion (statement P1))
                       (Implies (conclusion (statement P2)) C)\<rparr> R"
  shows "\<exists>out. combine_proofs P1 P2 C R = Inr out \<and>
     length (lines out) = length (lines P1) + length (lines P2) + 3 \<and>
     lines out ! (length (lines P1) + length (lines P2) + 1) =
       Line (Implies (conclusion (statement P2)) C) MP
         [length (lines P1) - 1, length (lines P1) + length (lines P2)] \<and>
     formula_of (lines out ! (length (lines P1) - 1)) = conclusion (statement P1) \<and>
     formula_of (lines out ! (length (lines P1) + length (lines P2))) =
       Implies (conclusion (statement P1)) (Implies (conclusion (statement P2)) C) \<and>
     lines out ! (length (lines P1) + length (lines P2) + 2) =
       Line C MP
         [length (lines P1) + length (lines P2) - 1,
          length (lines P1) + length (lines P2) + 1] \<and>
     formula_of (lines out ! (length (lines P1) + length (lines P2) - 1)) =
       conclusion (statement P2)"
proof -
  define ls where "ls =
       lines P1 @ map (shift_line (length (lines P1))) (lines P2) @
       [Line (Implies (conclusion (statement P1)) (Implies (conclusion (statement P2)) C))
          \<lparr>assumptions = [],
           conclusion = Implies (conclusion (statement P1))
                          (Implies (conclusion (statement P2)) C)\<rparr> [],
        Line (Implies (conclusion (statement P2)) C) MP
          [length (lines P1) - 1, length (lines P1) + length (lines P2)],
        Line C MP
          [length (lines P1) + length (lines P2) - 1,
           length (lines P1) + length (lines P2) + 1]]"
  define out where "out =
     \<lparr>statement = \<lparr>assumptions = assumptions (statement P1), conclusion = C\<rparr>,
      rules = rules P1 \<union> {MP, R}, lines = ls\<rparr>"
  have res: "combine_proofs P1 P2 C R = Inr out"
    unfolding out_def ls_def by (rule combine_proofs_result[OF assms])
  from v1 have ne1: "lines P1 \<noteq> []"
    and l1: "formula_of (last (lines P1)) = conclusion (statement P1)"
    by (simp_all add: is_valid_iff)
  from v2 have ne2: "lines P2 \<noteq> []"
    and l2: "formula_of (last (lines P2)) = conclusion (statement P2)"
    by (simp_all add: is_valid_iff)
  have lo: "lines out = ls" by (simp add: out_def)
  note nth = spliced_nth[OF ls_def ne1 ne2]
  show ?thesis
  proof (intro exI conjI)
    show "combine_proofs P1 P2 C R = Inr out" by (rule res)
    show "length (lines out) = length (lines P1) + length (lines P2) + 3"
      unfolding lo by (rule nth(1))
    show "lines out ! (length (lines P1) + length (lines P2) + 1) =
       Line (Implies (conclusion (statement P2)) C) MP
         [length (lines P1) - 1, length (lines P1) + length (lines P2)]"
      unfolding lo by (rule nth(3))
    show "formula_of (lines out ! (length (lines P1) - 1)) = conclusion (statement P1)"
      unfolding lo using nth(5) l1 by simp
    show "formula_of (lines out ! (length (lines P1) + length (lines P2))) =
       Implies (conclusion (statement P1)) (Implies (conclusion (statement P2)) C)"
      unfolding lo using nth(2) by simp
    show "lines out ! (length (lines P1) + length (lines P2) + 2) =
       Line C MP
         [length (lines P1) + length (lines P2) - 1,
          length (lines P1) + length (lines P2) + 1]"
      unfolding lo by (rule nth(4))
    show "formula_of (lines out ! (length (lines P1) + length (lines P2) - 1)) =
       conclusion (statement P2)"
      unfolding lo using nth(6) l2 by simp
  qed
qed

lemma prove_from_opposites_emitted:
  assumes va: "is_valid Pa" and vn: "is_valid Pn"
    and asms: "assumptions (statement Pa) = assumptions (statement Pn)"
    and neg: "Neg (conclusion (statement Pa)) = conclusion (statement Pn)"
    and rls: "rules Pa = rules Pn"
  shows "\<exists>out. prove_from_opposites Pa Pn C = Inr out \<and>
     length (lines out) = length (lines Pa) + length (lines Pn) + 3 \<and>
     lines out ! (length (lines Pa) + length (lines Pn) + 1) =
       Line (Implies (conclusion (statement Pa)) C) MP
         [length (lines Pa) + length (lines Pn) - 1, length (lines Pa) + length (lines Pn)] \<and>
     formula_of (lines out ! (length (lines Pa) + length (lines Pn) - 1)) =
       Neg (conclusion (statement Pa)) \<and>
     formula_of (lines out ! (length (lines Pa) + length (lines Pn))) =
       Implies (Neg (conclusion (statement Pa))) (Implies (conclusion (statement Pa)) C) \<and>
     lines out ! (length (lines Pa) + length (lines Pn) + 2) =
       Line C MP [length (lines Pa) - 1, length (lines Pa) + length (lines Pn) + 1] \<and>
     formula_of (lines out ! (length (lines Pa) - 1)) = conclusion (statement Pa)"
proof -
  define ls where "ls =
       lines Pa @ map (shift_line (length (lines Pa))) (lines Pn) @
       [Line (Implies (Neg (conclusion (statement Pa)))
                (Implies (conclusion (statement Pa)) C)) I2 [],
        Line (Implies (conclusion (statement Pa)) C) MP
          [length (lines Pa) + length (lines Pn) - 1,
           length (lines Pa) + length (lines Pn)],
        Line C MP
          [length (lines Pa) - 1, length (lines Pa) + length (lines Pn) + 1]]"
  define out where "out =
     \<lparr>statement = \<lparr>assumptions = assumptions (statement Pa), conclusion = C\<rparr>,
      rules = rules Pa \<union> {MP, I2}, lines = ls\<rparr>"
  have res: "prove_from_opposites Pa Pn C = Inr out"
    unfolding out_def ls_def by (rule prove_from_opposites_result[OF assms])
  from va have ne1: "lines Pa \<noteq> []"
    and l1: "formula_of (last (lines Pa)) = conclusion (statement Pa)"
    by (simp_all add: is_valid_iff)
  from vn neg have ne2: "lines Pn \<noteq> []"
    and l2: "formula_of (last (lines Pn)) = Neg (conclusion (statement Pa))"
    by (simp_all add: is_valid_iff)
  have lo: "lines out = ls" by (simp add: out_def)
  note nth = spliced_nth[OF ls_def ne1 ne2]
  show ?thesis
  proof (intro exI conjI)
    show "prove_from_opposites Pa Pn C = Inr out" by (rule res)
    show "length (lines out) = length (lines Pa) + length (lines Pn) + 3"
      unfolding lo by (rule nth(1))
    show "lines out ! (length (lines Pa) + length (lines Pn) + 1) =
       Line (Implies (conclusion (statement Pa)) C) MP
         [length (lines Pa) + length (lines Pn) - 1, length (lines Pa) + length (lines Pn)]"
      unfolding lo by (rule nth(3))
    show "formula_of (lines out ! (length (lines Pa) + length (lines Pn) - 1)) =
       Neg (conclusion (statement Pa))"
      unfolding lo using nth(6) l2 by simp
    show "formula_of (lines out ! (length (lines Pa) + length (lines Pn))) =
       Implies (Neg (conclusion (statement Pa))) (Implies (conclusion (statement Pa)) C)"
      unfolding lo using nth(2) by simp
    show "lines out ! (length (lines Pa) + length (lines Pn) + 2) =
       Line C MP [length (lines Pa) - 1, length (lines Pa) + length (lines Pn) + 1]"
      unfolding lo by (rule nth(4))
    show "formula_of (lines out ! (length (lines Pa) - 1)) = conclusion (statement Pa)"
      unfolding lo using nth(5) l1 by simp
  qed
qed

text \<open>
  A valid line justified by \<^verbatim>\<open>MP\<close> has two references, to earlier lines, the first
  to the antecedent and the second to the implication. The lines a maneuver copies,
  and the lines of the second proof that it builds anew with moved references, are
  valid in the returned sequence whatever the rule stored on the instance line; so
  every Modus Ponens line of the returned sequence has its references in that order.
\<close>

lemma valid_MP_line:
  assumes v: "is_line_valid p i" and ln: "lines p ! i = Line f MP refs"
  shows "\<exists>a b. refs = [a, b] \<and> a < i \<and> b < i \<and>
     formula_of (lines p ! b) = Implies (formula_of (lines p ! a)) f"
proof -
  from MP_line_has_two_references[OF v ln] obtain a b where
    refs: "refs = [a, b]" and a: "a < i" and b: "b < i" by blast
  from v ln refs have "is_specialization_of
      \<lparr>assumptions = [formula_of (lines p ! a), formula_of (lines p ! b)], conclusion = f\<rparr> MP"
    by (simp add: is_line_valid_def rule_for_line_def)
  then obtain m where "specialization_map MP
      \<lparr>assumptions = [formula_of (lines p ! a), formula_of (lines p ! b)], conclusion = f\<rparr>
      = Some m"
    by (auto simp: is_specialization_of_def)
  from specialization_map_sound[OF this]
  have "formula_of (lines p ! b) = Implies (formula_of (lines p ! a)) f"
    by (auto simp: specialize_def MP_def)
  with refs a b show ?thesis by blast
qed

lemma not_MP_without_assumptions: "assumptions r = [] \<Longrightarrow> r \<noteq> MP"
  by (auto simp: MP_def)

lemma spliced_MP_lines:
  fixes q :: Proof
  assumes v1: "is_valid P1" and v2: "is_valid P2"
    and a1: "assumptions (statement q) = assumptions (statement P1)"
    and a2: "assumptions (statement q) = assumptions (statement P2)"
    and r1: "rules P1 \<subseteq> rules q" and r2: "rules P2 \<subseteq> rules q"
    and ls: "lines q =
       lines P1 @ map (shift_line (length (lines P1))) (lines P2) @
       [Line f0 r0 [],
        Line f1 MP [a1', b1'],
        Line f2 MP [a2', b2']]"
    and r0: "r0 \<noteq> MP"
    and m1: "a1' < length (lines P1) + length (lines P2) + 1"
            "b1' < length (lines P1) + length (lines P2) + 1"
            "formula_of (lines q ! b1') = Implies (formula_of (lines q ! a1')) f1"
    and m2: "a2' < length (lines P1) + length (lines P2) + 2"
            "b2' < length (lines P1) + length (lines P2) + 2"
            "formula_of (lines q ! b2') = Implies (formula_of (lines q ! a2')) f2"
    and i: "i < length (lines q)" and ln: "lines q ! i = Line f MP refs"
  shows "\<exists>a b. refs = [a, b] \<and> a < i \<and> b < i \<and>
     formula_of (lines q ! b) = Implies (formula_of (lines q ! a)) f"
proof -
  define n where "n = length (lines P1) + length (lines P2)"
  from v1 have ne1: "lines P1 \<noteq> []" by (simp add: is_valid_iff)
  from v2 have ne2: "lines P2 \<noteq> []" by (simp add: is_valid_iff)
  note nth = spliced_nth[OF ls ne1 ne2]
  from i nth(1) consider "i < n" | "i = n" | "i = n + 1" | "i = n + 2"
    unfolding n_def by linarith
  then show ?thesis
  proof cases
    case 1
    then have "is_line_valid q i"
      unfolding n_def by (intro spliced_lines_valid[OF v1 v2 a1 a2 r1 r2 ls])
    from valid_MP_line[OF this ln] show ?thesis .
  next
    case 2
    with nth(2) ln r0 show ?thesis by (simp add: n_def)
  next
    case 3
    with nth(3) ln have "f = f1" "refs = [a1', b1']" by (simp_all add: n_def)
    with m1 3 show ?thesis by (simp add: n_def)
  next
    case 4
    with nth(4) ln have "f = f2" "refs = [a2', b2']" by (simp_all add: n_def)
    with m2 4 show ?thesis by (simp add: n_def)
  qed
qed

lemma prove_corollary_all_MP_lines:
  assumes v: "is_valid P"
    and s: "is_specialization_of
       \<lparr>assumptions = [], conclusion = Implies (conclusion (statement P)) C\<rparr> R"
    and res: "prove_corollary P C R = Inr out"
    and i: "i < length (lines out)" and ln: "lines out ! i = Line f MP refs"
  shows "\<exists>a b. refs = [a, b] \<and> a < i \<and> b < i \<and>
     formula_of (lines out ! b) = Implies (formula_of (lines out ! a)) f"
proof -
  define n where "n = length (lines P)"
  define inst where "inst =
     \<lparr>assumptions = [], conclusion = Implies (conclusion (statement P)) C\<rparr>"
  from prove_corollary_result[OF v s] res have out: "out =
     \<lparr>statement = \<lparr>assumptions = assumptions (statement P), conclusion = C\<rparr>,
      rules = rules P \<union> {MP, R},
      lines = lines P @
        [Line (Implies (conclusion (statement P)) C) inst [], Line C MP [n - 1, n]]\<rparr>"
    by (simp add: inst_def n_def)
  then have ls: "lines out = lines P @
        [Line (Implies (conclusion (statement P)) C) inst [], Line C MP [n - 1, n]]"
    by simp
  from v have ne: "lines P \<noteq> []"
    and lastA: "formula_of (last (lines P)) = conclusion (statement P)"
    by (simp_all add: is_valid_iff)
  note nth = extended_nth[OF ls ne]
  from ne have n: "0 < n" by (simp add: n_def)
  from i nth(1) consider "i < n" | "i = n" | "i = n + 1" unfolding n_def by linarith
  then show ?thesis
  proof cases
    case 1
    have "is_line_valid out i"
    proof (rule copied_lines_valid[OF v _ _ ls])
      show "assumptions (statement out) = assumptions (statement P)" by (simp add: out)
      show "rules P \<subseteq> rules out" by (auto simp: out)
      show "i < length (lines P)" using 1 by (simp add: n_def)
    qed
    from valid_MP_line[OF this ln] show ?thesis .
  next
    case 2
    have "inst \<noteq> MP" by (rule not_MP_without_assumptions) (simp add: inst_def)
    with 2 nth(2) ln show ?thesis by (simp add: n_def)
  next
    case 3
    with nth(3) ln have f: "f = C" and refs: "refs = [n - 1, n]" by (simp_all add: n_def)
    have "formula_of (lines out ! n) = Implies (formula_of (lines out ! (n - 1))) C"
      using nth(2) nth(4) lastA by (simp add: n_def)
    with f refs 3 n show ?thesis by simp
  qed
qed

lemma combine_proofs_all_MP_lines:
  assumes v1: "is_valid P1" and v2: "is_valid P2"
    and a: "assumptions (statement P1) = assumptions (statement P2)"
    and r: "rules P1 = rules P2"
    and s: "is_specialization_of
       \<lparr>assumptions = [],
        conclusion = Implies (conclusion (statement P1))
                       (Implies (conclusion (statement P2)) C)\<rparr> R"
    and res: "combine_proofs P1 P2 C R = Inr out"
    and i: "i < length (lines out)" and ln: "lines out ! i = Line f MP refs"
  shows "\<exists>a b. refs = [a, b] \<and> a < i \<and> b < i \<and>
     formula_of (lines out ! b) = Implies (formula_of (lines out ! a)) f"
proof -
  define n1 where "n1 = length (lines P1)"
  define n2 where "n2 = length (lines P2)"
  define A where "A = conclusion (statement P1)"
  define B where "B = conclusion (statement P2)"
  define inst where "inst = \<lparr>assumptions = [], conclusion = Implies A (Implies B C)\<rparr>"
  from combine_proofs_result[OF v1 v2 a r s] res have out: "out =
     \<lparr>statement = \<lparr>assumptions = assumptions (statement P1), conclusion = C\<rparr>,
      rules = rules P1 \<union> {MP, R},
      lines = lines P1 @ map (shift_line (length (lines P1))) (lines P2) @
        [Line (Implies A (Implies B C)) inst [],
         Line (Implies B C) MP [n1 - 1, n1 + n2],
         Line C MP [n1 + n2 - 1, n1 + n2 + 1]]\<rparr>"
    by (simp add: inst_def n1_def n2_def A_def B_def)
  then have ls: "lines out = lines P1 @ map (shift_line (length (lines P1))) (lines P2) @
        [Line (Implies A (Implies B C)) inst [],
         Line (Implies B C) MP [n1 - 1, n1 + n2],
         Line C MP [n1 + n2 - 1, n1 + n2 + 1]]"
    by simp
  from v1 have ne1: "lines P1 \<noteq> []" and lastA: "formula_of (last (lines P1)) = A"
    by (simp_all add: is_valid_iff A_def)
  from v2 have ne2: "lines P2 \<noteq> []" and lastB: "formula_of (last (lines P2)) = B"
    by (simp_all add: is_valid_iff B_def)
  note nth = spliced_nth[OF ls ne1 ne2]
  from ne1 have n1: "0 < n1" by (simp add: n1_def)
  from ne2 have n2: "0 < n2" by (simp add: n2_def)
  have r0: "inst \<noteq> MP" by (rule not_MP_without_assumptions) (simp add: inst_def)
  have f1: "formula_of (lines out ! (n1 + n2)) =
      Implies (formula_of (lines out ! (n1 - 1))) (Implies B C)"
    using nth(2) nth(5) lastA by (simp add: n1_def n2_def)
  have f2: "formula_of (lines out ! (n1 + n2 + 1)) =
      Implies (formula_of (lines out ! (n1 + n2 - 1))) C"
    using nth(3) nth(6) lastB by (simp add: n1_def n2_def)
  show ?thesis
  proof (rule spliced_MP_lines[OF v1 v2 _ _ _ _ ls r0 _ _ f1 _ _ f2 i ln])
    show "assumptions (statement out) = assumptions (statement P1)" by (simp add: out)
    show "assumptions (statement out) = assumptions (statement P2)" using a by (simp add: out)
    show "rules P1 \<subseteq> rules out" by (auto simp: out)
    show "rules P2 \<subseteq> rules out" using r by (auto simp: out)
    show "n1 - 1 < length (lines P1) + length (lines P2) + 1" by (simp add: n1_def)
    show "n1 + n2 < length (lines P1) + length (lines P2) + 1" by (simp add: n1_def n2_def)
    show "n1 + n2 - 1 < length (lines P1) + length (lines P2) + 2"
      by (simp add: n1_def n2_def)
    show "n1 + n2 + 1 < length (lines P1) + length (lines P2) + 2"
      by (simp add: n1_def n2_def)
  qed
qed

lemma prove_from_opposites_all_MP_lines:
  assumes va: "is_valid Pa" and vn: "is_valid Pn"
    and asms: "assumptions (statement Pa) = assumptions (statement Pn)"
    and neg: "Neg (conclusion (statement Pa)) = conclusion (statement Pn)"
    and rls: "rules Pa = rules Pn"
    and res: "prove_from_opposites Pa Pn C = Inr out"
    and i: "i < length (lines out)" and ln: "lines out ! i = Line f MP refs"
  shows "\<exists>a b. refs = [a, b] \<and> a < i \<and> b < i \<and>
     formula_of (lines out ! b) = Implies (formula_of (lines out ! a)) f"
proof -
  define n1 where "n1 = length (lines Pa)"
  define n2 where "n2 = length (lines Pn)"
  define A where "A = conclusion (statement Pa)"
  from prove_from_opposites_result[OF va vn asms neg rls, of C] res have out: "out =
     \<lparr>statement = \<lparr>assumptions = assumptions (statement Pa), conclusion = C\<rparr>,
      rules = rules Pa \<union> {MP, I2},
      lines = lines Pa @ map (shift_line (length (lines Pa))) (lines Pn) @
        [Line (Implies (Neg A) (Implies A C)) I2 [],
         Line (Implies A C) MP [n1 + n2 - 1, n1 + n2],
         Line C MP [n1 - 1, n1 + n2 + 1]]\<rparr>"
    by (simp add: n1_def n2_def A_def)
  then have ls: "lines out = lines Pa @ map (shift_line (length (lines Pa))) (lines Pn) @
        [Line (Implies (Neg A) (Implies A C)) I2 [],
         Line (Implies A C) MP [n1 + n2 - 1, n1 + n2],
         Line C MP [n1 - 1, n1 + n2 + 1]]"
    by simp
  from va have ne1: "lines Pa \<noteq> []" and lastA: "formula_of (last (lines Pa)) = A"
    by (simp_all add: is_valid_iff A_def)
  from vn neg have ne2: "lines Pn \<noteq> []" and lastN: "formula_of (last (lines Pn)) = Neg A"
    by (simp_all add: is_valid_iff A_def)
  note nth = spliced_nth[OF ls ne1 ne2]
  from ne1 have n1: "0 < n1" by (simp add: n1_def)
  from ne2 have n2: "0 < n2" by (simp add: n2_def)
  have r0: "I2 \<noteq> MP" by (rule not_MP_without_assumptions) (simp add: I2_def)
  have f1: "formula_of (lines out ! (n1 + n2)) =
      Implies (formula_of (lines out ! (n1 + n2 - 1))) (Implies A C)"
    using nth(2) nth(6) lastN by (simp add: n1_def n2_def)
  have f2: "formula_of (lines out ! (n1 + n2 + 1)) =
      Implies (formula_of (lines out ! (n1 - 1))) C"
    using nth(3) nth(5) lastA by (simp add: n1_def n2_def)
  show ?thesis
  proof (rule spliced_MP_lines[OF va vn _ _ _ _ ls r0 _ _ f1 _ _ f2 i ln])
    show "assumptions (statement out) = assumptions (statement Pa)" by (simp add: out)
    show "assumptions (statement out) = assumptions (statement Pn)"
      using asms by (simp add: out)
    show "rules Pa \<subseteq> rules out" by (auto simp: out)
    show "rules Pn \<subseteq> rules out" using rls by (auto simp: out)
    show "n1 + n2 - 1 < length (lines Pa) + length (lines Pn) + 1"
      by (simp add: n1_def n2_def)
    show "n1 + n2 < length (lines Pa) + length (lines Pn) + 1" by (simp add: n1_def n2_def)
    show "n1 - 1 < length (lines Pa) + length (lines Pn) + 2" by (simp add: n1_def)
    show "n1 + n2 + 1 < length (lines Pa) + length (lines Pn) + 2"
      by (simp add: n1_def n2_def)
  qed
qed

text \<open>
  Claim C10. Every Modus Ponens line that \<^verbatim>\<open>prove_corollary\<close>, \<^verbatim>\<open>combine_proofs\<close> and
  \<^verbatim>\<open>prove_from_opposites\<close> emit has exactly two references, in the order of the
  assumptions of \<^verbatim>\<open>MP\<close>: first the index of an earlier line whose formula is the
  antecedent, second the index of an earlier line whose formula is the implication
  from that antecedent to the formula of the Modus Ponens line. This holds, for all
  inputs that meet the preconditions of the maneuver, of every line of the returned
  sequence whose rule is \<^verbatim>\<open>MP\<close>: the lines copied from the first proof, the lines of
  the second proof that \<^verbatim>\<open>combine_proofs\<close> and \<^verbatim>\<open>prove_from_opposites\<close> build anew
  with every reference moved by the first proof's length, and the one or two
  Modus Ponens lines appended at the end, whose positions and references are given.
\<close>

theorem modus_ponens_reference_order:
  "(is_valid P \<and>
    is_specialization_of
      \<lparr>assumptions = [], conclusion = Implies (conclusion (statement P)) C\<rparr> R \<longrightarrow>
    (\<exists>out. prove_corollary P C R = Inr out \<and>
       (\<forall>i < length (lines out). \<forall>f refs. lines out ! i = Line f MP refs \<longrightarrow>
          (\<exists>a b. refs = [a, b] \<and> a < i \<and> b < i \<and>
             formula_of (lines out ! b) = Implies (formula_of (lines out ! a)) f)) \<and>
       length (lines out) = length (lines P) + 2 \<and>
       lines out ! (length (lines P) + 1) =
         Line C MP [length (lines P) - 1, length (lines P)] \<and>
       formula_of (lines out ! (length (lines P) - 1)) = conclusion (statement P) \<and>
       formula_of (lines out ! length (lines P)) = Implies (conclusion (statement P)) C)) \<and>
   (is_valid P1 \<and> is_valid P2 \<and>
    assumptions (statement P1) = assumptions (statement P2) \<and>
    rules P1 = rules P2 \<and>
    is_specialization_of
      \<lparr>assumptions = [],
       conclusion = Implies (conclusion (statement P1))
                      (Implies (conclusion (statement P2)) C')\<rparr> R' \<longrightarrow>
    (\<exists>out. combine_proofs P1 P2 C' R' = Inr out \<and>
       (\<forall>i < length (lines out). \<forall>f refs. lines out ! i = Line f MP refs \<longrightarrow>
          (\<exists>a b. refs = [a, b] \<and> a < i \<and> b < i \<and>
             formula_of (lines out ! b) = Implies (formula_of (lines out ! a)) f)) \<and>
       length (lines out) = length (lines P1) + length (lines P2) + 3 \<and>
       lines out ! (length (lines P1) + length (lines P2) + 1) =
         Line (Implies (conclusion (statement P2)) C') MP
           [length (lines P1) - 1, length (lines P1) + length (lines P2)] \<and>
       formula_of (lines out ! (length (lines P1) - 1)) = conclusion (statement P1) \<and>
       formula_of (lines out ! (length (lines P1) + length (lines P2))) =
         Implies (conclusion (statement P1)) (Implies (conclusion (statement P2)) C') \<and>
       lines out ! (length (lines P1) + length (lines P2) + 2) =
         Line C' MP
           [length (lines P1) + length (lines P2) - 1,
            length (lines P1) + length (lines P2) + 1] \<and>
       formula_of (lines out ! (length (lines P1) + length (lines P2) - 1)) =
         conclusion (statement P2))) \<and>
   (is_valid Pa \<and> is_valid Pn \<and>
    assumptions (statement Pa) = assumptions (statement Pn) \<and>
    Neg (conclusion (statement Pa)) = conclusion (statement Pn) \<and>
    rules Pa = rules Pn \<longrightarrow>
    (\<exists>out. prove_from_opposites Pa Pn C'' = Inr out \<and>
       (\<forall>i < length (lines out). \<forall>f refs. lines out ! i = Line f MP refs \<longrightarrow>
          (\<exists>a b. refs = [a, b] \<and> a < i \<and> b < i \<and>
             formula_of (lines out ! b) = Implies (formula_of (lines out ! a)) f)) \<and>
       length (lines out) = length (lines Pa) + length (lines Pn) + 3 \<and>
       lines out ! (length (lines Pa) + length (lines Pn) + 1) =
         Line (Implies (conclusion (statement Pa)) C'') MP
           [length (lines Pa) + length (lines Pn) - 1, length (lines Pa) + length (lines Pn)] \<and>
       formula_of (lines out ! (length (lines Pa) + length (lines Pn) - 1)) =
         Neg (conclusion (statement Pa)) \<and>
       formula_of (lines out ! (length (lines Pa) + length (lines Pn))) =
         Implies (Neg (conclusion (statement Pa))) (Implies (conclusion (statement Pa)) C'') \<and>
       lines out ! (length (lines Pa) + length (lines Pn) + 2) =
         Line C'' MP [length (lines Pa) - 1, length (lines Pa) + length (lines Pn) + 1] \<and>
       formula_of (lines out ! (length (lines Pa) - 1)) = conclusion (statement Pa)))"
proof (intro conjI impI)
  assume "is_valid P \<and>
    is_specialization_of
      \<lparr>assumptions = [], conclusion = Implies (conclusion (statement P)) C\<rparr> R"
  then have v: "is_valid P" and s: "is_specialization_of
      \<lparr>assumptions = [], conclusion = Implies (conclusion (statement P)) C\<rparr> R"
    by blast+
  from prove_corollary_emitted[OF v s] obtain out where
    res: "prove_corollary P C R = Inr out"
    and e: "length (lines out) = length (lines P) + 2 \<and>
       lines out ! (length (lines P) + 1) =
         Line C MP [length (lines P) - 1, length (lines P)] \<and>
       formula_of (lines out ! (length (lines P) - 1)) = conclusion (statement P) \<and>
       formula_of (lines out ! length (lines P)) = Implies (conclusion (statement P)) C"
    by blast
  have every: "\<forall>i < length (lines out). \<forall>f refs. lines out ! i = Line f MP refs \<longrightarrow>
          (\<exists>a b. refs = [a, b] \<and> a < i \<and> b < i \<and>
             formula_of (lines out ! b) = Implies (formula_of (lines out ! a)) f)"
    using prove_corollary_all_MP_lines[OF v s res] by blast
  from res e every show "\<exists>out. prove_corollary P C R = Inr out \<and>
       (\<forall>i < length (lines out). \<forall>f refs. lines out ! i = Line f MP refs \<longrightarrow>
          (\<exists>a b. refs = [a, b] \<and> a < i \<and> b < i \<and>
             formula_of (lines out ! b) = Implies (formula_of (lines out ! a)) f)) \<and>
       length (lines out) = length (lines P) + 2 \<and>
       lines out ! (length (lines P) + 1) =
         Line C MP [length (lines P) - 1, length (lines P)] \<and>
       formula_of (lines out ! (length (lines P) - 1)) = conclusion (statement P) \<and>
       formula_of (lines out ! length (lines P)) = Implies (conclusion (statement P)) C"
    by blast
next
  assume "is_valid P1 \<and> is_valid P2 \<and>
    assumptions (statement P1) = assumptions (statement P2) \<and>
    rules P1 = rules P2 \<and>
    is_specialization_of
      \<lparr>assumptions = [],
       conclusion = Implies (conclusion (statement P1))
                      (Implies (conclusion (statement P2)) C')\<rparr> R'"
  then have v1: "is_valid P1" and v2: "is_valid P2"
    and a: "assumptions (statement P1) = assumptions (statement P2)"
    and r: "rules P1 = rules P2"
    and s: "is_specialization_of
      \<lparr>assumptions = [],
       conclusion = Implies (conclusion (statement P1))
                      (Implies (conclusion (statement P2)) C')\<rparr> R'"
    by blast+
  from combine_proofs_emitted[OF v1 v2 a r s] obtain out where
    res: "combine_proofs P1 P2 C' R' = Inr out"
    and e: "length (lines out) = length (lines P1) + length (lines P2) + 3 \<and>
       lines out ! (length (lines P1) + length (lines P2) + 1) =
         Line (Implies (conclusion (statement P2)) C') MP
           [length (lines P1) - 1, length (lines P1) + length (lines P2)] \<and>
       formula_of (lines out ! (length (lines P1) - 1)) = conclusion (statement P1) \<and>
       formula_of (lines out ! (length (lines P1) + length (lines P2))) =
         Implies (conclusion (statement P1)) (Implies (conclusion (statement P2)) C') \<and>
       lines out ! (length (lines P1) + length (lines P2) + 2) =
         Line C' MP
           [length (lines P1) + length (lines P2) - 1,
            length (lines P1) + length (lines P2) + 1] \<and>
       formula_of (lines out ! (length (lines P1) + length (lines P2) - 1)) =
         conclusion (statement P2)"
    by blast
  have every: "\<forall>i < length (lines out). \<forall>f refs. lines out ! i = Line f MP refs \<longrightarrow>
          (\<exists>a b. refs = [a, b] \<and> a < i \<and> b < i \<and>
             formula_of (lines out ! b) = Implies (formula_of (lines out ! a)) f)"
    using combine_proofs_all_MP_lines[OF v1 v2 a r s res] by blast
  from res e every show "\<exists>out. combine_proofs P1 P2 C' R' = Inr out \<and>
       (\<forall>i < length (lines out). \<forall>f refs. lines out ! i = Line f MP refs \<longrightarrow>
          (\<exists>a b. refs = [a, b] \<and> a < i \<and> b < i \<and>
             formula_of (lines out ! b) = Implies (formula_of (lines out ! a)) f)) \<and>
       length (lines out) = length (lines P1) + length (lines P2) + 3 \<and>
       lines out ! (length (lines P1) + length (lines P2) + 1) =
         Line (Implies (conclusion (statement P2)) C') MP
           [length (lines P1) - 1, length (lines P1) + length (lines P2)] \<and>
       formula_of (lines out ! (length (lines P1) - 1)) = conclusion (statement P1) \<and>
       formula_of (lines out ! (length (lines P1) + length (lines P2))) =
         Implies (conclusion (statement P1)) (Implies (conclusion (statement P2)) C') \<and>
       lines out ! (length (lines P1) + length (lines P2) + 2) =
         Line C' MP
           [length (lines P1) + length (lines P2) - 1,
            length (lines P1) + length (lines P2) + 1] \<and>
       formula_of (lines out ! (length (lines P1) + length (lines P2) - 1)) =
         conclusion (statement P2)"
    by blast
next
  assume "is_valid Pa \<and> is_valid Pn \<and>
    assumptions (statement Pa) = assumptions (statement Pn) \<and>
    Neg (conclusion (statement Pa)) = conclusion (statement Pn) \<and>
    rules Pa = rules Pn"
  then have va: "is_valid Pa" and vn: "is_valid Pn"
    and a: "assumptions (statement Pa) = assumptions (statement Pn)"
    and n: "Neg (conclusion (statement Pa)) = conclusion (statement Pn)"
    and r: "rules Pa = rules Pn"
    by blast+
  from prove_from_opposites_emitted[OF va vn a n r] obtain out where
    res: "prove_from_opposites Pa Pn C'' = Inr out"
    and e: "length (lines out) = length (lines Pa) + length (lines Pn) + 3 \<and>
       lines out ! (length (lines Pa) + length (lines Pn) + 1) =
         Line (Implies (conclusion (statement Pa)) C'') MP
           [length (lines Pa) + length (lines Pn) - 1, length (lines Pa) + length (lines Pn)] \<and>
       formula_of (lines out ! (length (lines Pa) + length (lines Pn) - 1)) =
         Neg (conclusion (statement Pa)) \<and>
       formula_of (lines out ! (length (lines Pa) + length (lines Pn))) =
         Implies (Neg (conclusion (statement Pa))) (Implies (conclusion (statement Pa)) C'') \<and>
       lines out ! (length (lines Pa) + length (lines Pn) + 2) =
         Line C'' MP [length (lines Pa) - 1, length (lines Pa) + length (lines Pn) + 1] \<and>
       formula_of (lines out ! (length (lines Pa) - 1)) = conclusion (statement Pa)"
    by blast
  have every: "\<forall>i < length (lines out). \<forall>f refs. lines out ! i = Line f MP refs \<longrightarrow>
          (\<exists>a b. refs = [a, b] \<and> a < i \<and> b < i \<and>
             formula_of (lines out ! b) = Implies (formula_of (lines out ! a)) f)"
    using prove_from_opposites_all_MP_lines[OF va vn a n r res] by blast
  from res e every show "\<exists>out. prove_from_opposites Pa Pn C'' = Inr out \<and>
       (\<forall>i < length (lines out). \<forall>f refs. lines out ! i = Line f MP refs \<longrightarrow>
          (\<exists>a b. refs = [a, b] \<and> a < i \<and> b < i \<and>
             formula_of (lines out ! b) = Implies (formula_of (lines out ! a)) f)) \<and>
       length (lines out) = length (lines Pa) + length (lines Pn) + 3 \<and>
       lines out ! (length (lines Pa) + length (lines Pn) + 1) =
         Line (Implies (conclusion (statement Pa)) C'') MP
           [length (lines Pa) + length (lines Pn) - 1, length (lines Pa) + length (lines Pn)] \<and>
       formula_of (lines out ! (length (lines Pa) + length (lines Pn) - 1)) =
         Neg (conclusion (statement Pa)) \<and>
       formula_of (lines out ! (length (lines Pa) + length (lines Pn))) =
         Implies (Neg (conclusion (statement Pa))) (Implies (conclusion (statement Pa)) C'') \<and>
       lines out ! (length (lines Pa) + length (lines Pn) + 2) =
         Line C'' MP [length (lines Pa) - 1, length (lines Pa) + length (lines Pn) + 1] \<and>
       formula_of (lines out ! (length (lines Pa) - 1)) = conclusion (statement Pa)"
    by blast
qed

theorem modus_ponens_reference_order_witness:
  "is_valid proof_of_x \<and> is_valid proof_of_y \<and> is_valid proof_of_p \<and> is_valid proof_of_not_p \<and>
   is_specialization_of
     \<lparr>assumptions = [],
      conclusion = Implies (conclusion (statement proof_of_x)) (Implies (Var ''y'') (Var ''x''))\<rparr>
     I1 \<and>
   is_specialization_of
     \<lparr>assumptions = [],
      conclusion = Implies (conclusion (statement proof_of_x))
                     (Implies (conclusion (statement proof_of_y)) (Var ''x''))\<rparr> I1 \<and>
   (\<exists>out. prove_corollary proof_of_x (Implies (Var ''y'') (Var ''x'')) I1 = Inr out \<and>
      lines out ! 2 = Line (Implies (Var ''y'') (Var ''x'')) MP [0, 1] \<and>
      formula_of (lines out ! 0) = Var ''x'' \<and>
      formula_of (lines out ! 1) = Implies (Var ''x'') (Implies (Var ''y'') (Var ''x''))) \<and>
   (\<exists>out. combine_proofs proof_of_x proof_of_y (Var ''x'') I1 = Inr out \<and>
      lines out ! 3 = Line (Var ''y'') MP [1, 2] \<and>
      formula_of (lines out ! 1) = Var ''x'' \<and>
      formula_of (lines out ! 2) = Implies (Var ''x'') (Var ''y'') \<and>
      lines out ! 5 = Line (Implies (Var ''y'') (Var ''x'')) MP [0, 4] \<and>
      formula_of (lines out ! 0) = Var ''x'' \<and>
      formula_of (lines out ! 4) = Implies (Var ''x'') (Implies (Var ''y'') (Var ''x'')) \<and>
      lines out ! 6 = Line (Var ''x'') MP [3, 5] \<and>
      formula_of (lines out ! 3) = Var ''y'') \<and>
   (\<exists>out. prove_from_opposites proof_of_p proof_of_not_p (Var ''q'') = Inr out \<and>
      lines out ! 3 = Line (Neg (Var ''p'')) MP [1, 2] \<and>
      formula_of (lines out ! 1) = Var ''p'' \<and>
      formula_of (lines out ! 2) = Implies (Var ''p'') (Neg (Var ''p'')) \<and>
      lines out ! 5 = Line (Implies (Var ''p'') (Var ''q'')) MP [3, 4] \<and>
      formula_of (lines out ! 3) = Neg (Var ''p'') \<and>
      formula_of (lines out ! 4) = Implies (Neg (Var ''p'')) (Implies (Var ''p'') (Var ''q'')) \<and>
      lines out ! 6 = Line (Var ''q'') MP [0, 5] \<and>
      formula_of (lines out ! 0) = Var ''p'')"
proof -
  have vx: "is_valid proof_of_x" by code_simp
  have vy: "is_valid proof_of_y" by code_simp
  have vp: "is_valid proof_of_p" by code_simp
  have vn: "is_valid proof_of_not_p" by code_simp
  have s1: "is_specialization_of
     \<lparr>assumptions = [],
      conclusion = Implies (conclusion (statement proof_of_x)) (Implies (Var ''y'') (Var ''x''))\<rparr>
     I1"
    by code_simp
  have s2: "is_specialization_of
     \<lparr>assumptions = [],
      conclusion = Implies (conclusion (statement proof_of_x))
                     (Implies (conclusion (statement proof_of_y)) (Var ''x''))\<rparr> I1"
    by code_simp
  have axy: "assumptions (statement proof_of_x) = assumptions (statement proof_of_y)"
    and rxy: "rules proof_of_x = rules proof_of_y"
    by (simp_all add: proof_of_x_def proof_of_y_def)
  have apn: "assumptions (statement proof_of_p) = assumptions (statement proof_of_not_p)"
    and npn: "Neg (conclusion (statement proof_of_p)) = conclusion (statement proof_of_not_p)"
    and rpn: "rules proof_of_p = rules proof_of_not_p"
    by (simp_all add: proof_of_p_def proof_of_not_p_def)
  note at_inputs = modus_ponens_reference_order
    [of proof_of_x "Implies (Var ''y'') (Var ''x'')" I1
        proof_of_x proof_of_y "Var ''x''" I1
        proof_of_p proof_of_not_p "Var ''q''"]
  have lx: "length (lines proof_of_x) = 1" and ly: "length (lines proof_of_y) = 3"
    and lp: "length (lines proof_of_p) = 1" and ln: "length (lines proof_of_not_p) = 3"
    and cx: "conclusion (statement proof_of_x) = Var ''x''"
    and cy: "conclusion (statement proof_of_y) = Var ''y''"
    and cp: "conclusion (statement proof_of_p) = Var ''p''"
    by (simp_all add: proof_of_x_def proof_of_y_def proof_of_p_def proof_of_not_p_def)
  have e1: "\<exists>out. prove_corollary proof_of_x (Implies (Var ''y'') (Var ''x'')) I1 = Inr out \<and>
      lines out ! 2 = Line (Implies (Var ''y'') (Var ''x'')) MP [0, 1] \<and>
      formula_of (lines out ! 0) = Var ''x'' \<and>
      formula_of (lines out ! 1) = Implies (Var ''x'') (Implies (Var ''y'') (Var ''x''))"
  proof -
    from at_inputs vx s1 obtain out where
      "prove_corollary proof_of_x (Implies (Var ''y'') (Var ''x'')) I1 = Inr out"
      "lines out ! (length (lines proof_of_x) + 1) =
         Line (Implies (Var ''y'') (Var ''x'')) MP
           [length (lines proof_of_x) - 1, length (lines proof_of_x)]"
      "formula_of (lines out ! (length (lines proof_of_x) - 1)) =
         conclusion (statement proof_of_x)"
      "formula_of (lines out ! length (lines proof_of_x)) =
         Implies (conclusion (statement proof_of_x)) (Implies (Var ''y'') (Var ''x''))"
      by blast
    then show ?thesis by (intro exI[of _ out]) (simp add: lx cx eval_nat_numeral)
  qed
  have e2: "\<exists>out. combine_proofs proof_of_x proof_of_y (Var ''x'') I1 = Inr out \<and>
      lines out ! 3 = Line (Var ''y'') MP [1, 2] \<and>
      formula_of (lines out ! 1) = Var ''x'' \<and>
      formula_of (lines out ! 2) = Implies (Var ''x'') (Var ''y'') \<and>
      lines out ! 5 = Line (Implies (Var ''y'') (Var ''x'')) MP [0, 4] \<and>
      formula_of (lines out ! 0) = Var ''x'' \<and>
      formula_of (lines out ! 4) = Implies (Var ''x'') (Implies (Var ''y'') (Var ''x'')) \<and>
      lines out ! 6 = Line (Var ''x'') MP [3, 5] \<and>
      formula_of (lines out ! 3) = Var ''y''"
  proof -
    have l: "case combine_proofs proof_of_x proof_of_y (Var ''x'') I1 of
        Inl e \<Rightarrow> False
      | Inr out \<Rightarrow> lines out ! 3 = Line (Var ''y'') MP [1, 2] \<and>
          formula_of (lines out ! 1) = Var ''x''"
      by code_simp
    from at_inputs vx vy axy rxy s2 obtain out where
      res: "combine_proofs proof_of_x proof_of_y (Var ''x'') I1 = Inr out"
      and len: "length (lines out) = length (lines proof_of_x) + length (lines proof_of_y) + 3"
      and every: "\<forall>i < length (lines out). \<forall>f refs. lines out ! i = Line f MP refs \<longrightarrow>
          (\<exists>a b. refs = [a, b] \<and> a < i \<and> b < i \<and>
             formula_of (lines out ! b) = Implies (formula_of (lines out ! a)) f)"
      and emitted:
      "lines out ! (length (lines proof_of_x) + length (lines proof_of_y) + 1) =
         Line (Implies (conclusion (statement proof_of_y)) (Var ''x'')) MP
           [length (lines proof_of_x) - 1, length (lines proof_of_x) + length (lines proof_of_y)]"
      "formula_of (lines out ! (length (lines proof_of_x) - 1)) =
         conclusion (statement proof_of_x)"
      "formula_of (lines out ! (length (lines proof_of_x) + length (lines proof_of_y))) =
         Implies (conclusion (statement proof_of_x))
           (Implies (conclusion (statement proof_of_y)) (Var ''x''))"
      "lines out ! (length (lines proof_of_x) + length (lines proof_of_y) + 2) =
         Line (Var ''x'') MP
           [length (lines proof_of_x) + length (lines proof_of_y) - 1,
            length (lines proof_of_x) + length (lines proof_of_y) + 1]"
      "formula_of (lines out ! (length (lines proof_of_x) + length (lines proof_of_y) - 1)) =
         conclusion (statement proof_of_y)"
      by blast
    from res l have l3: "lines out ! 3 = Line (Var ''y'') MP [1, 2]"
      and l1: "formula_of (lines out ! 1) = Var ''x''" by simp_all
    from len have "3 < length (lines out)" by (simp add: lx ly)
    with every l3 obtain a b where "[1, 2] = [a, b]"
      and "formula_of (lines out ! b) = Implies (formula_of (lines out ! a)) (Var ''y'')"
      by blast
    then have "formula_of (lines out ! 2) = Implies (formula_of (lines out ! 1)) (Var ''y'')"
      by simp
    with l1 have l2: "formula_of (lines out ! 2) = Implies (Var ''x'') (Var ''y'')" by simp
    from res emitted l3 l1 l2 show ?thesis
      by (intro exI[of _ out]) (simp add: lx ly cx cy eval_nat_numeral)
  qed
  have e3: "\<exists>out. prove_from_opposites proof_of_p proof_of_not_p (Var ''q'') = Inr out \<and>
      lines out ! 3 = Line (Neg (Var ''p'')) MP [1, 2] \<and>
      formula_of (lines out ! 1) = Var ''p'' \<and>
      formula_of (lines out ! 2) = Implies (Var ''p'') (Neg (Var ''p'')) \<and>
      lines out ! 5 = Line (Implies (Var ''p'') (Var ''q'')) MP [3, 4] \<and>
      formula_of (lines out ! 3) = Neg (Var ''p'') \<and>
      formula_of (lines out ! 4) = Implies (Neg (Var ''p'')) (Implies (Var ''p'') (Var ''q'')) \<and>
      lines out ! 6 = Line (Var ''q'') MP [0, 5] \<and>
      formula_of (lines out ! 0) = Var ''p''"
  proof -
    have l: "case prove_from_opposites proof_of_p proof_of_not_p (Var ''q'') of
        Inl e \<Rightarrow> False
      | Inr out \<Rightarrow> lines out ! 3 = Line (Neg (Var ''p'')) MP [1, 2] \<and>
          formula_of (lines out ! 1) = Var ''p''"
      by code_simp
    from at_inputs vp vn apn npn rpn obtain out where
      res: "prove_from_opposites proof_of_p proof_of_not_p (Var ''q'') = Inr out"
      and len: "length (lines out) =
         length (lines proof_of_p) + length (lines proof_of_not_p) + 3"
      and every: "\<forall>i < length (lines out). \<forall>f refs. lines out ! i = Line f MP refs \<longrightarrow>
          (\<exists>a b. refs = [a, b] \<and> a < i \<and> b < i \<and>
             formula_of (lines out ! b) = Implies (formula_of (lines out ! a)) f)"
      and emitted:
      "lines out ! (length (lines proof_of_p) + length (lines proof_of_not_p) + 1) =
         Line (Implies (conclusion (statement proof_of_p)) (Var ''q'')) MP
           [length (lines proof_of_p) + length (lines proof_of_not_p) - 1,
            length (lines proof_of_p) + length (lines proof_of_not_p)]"
      "formula_of (lines out ! (length (lines proof_of_p) + length (lines proof_of_not_p) - 1)) =
         Neg (conclusion (statement proof_of_p))"
      "formula_of (lines out ! (length (lines proof_of_p) + length (lines proof_of_not_p))) =
         Implies (Neg (conclusion (statement proof_of_p)))
           (Implies (conclusion (statement proof_of_p)) (Var ''q''))"
      "lines out ! (length (lines proof_of_p) + length (lines proof_of_not_p) + 2) =
         Line (Var ''q'') MP
           [length (lines proof_of_p) - 1,
            length (lines proof_of_p) + length (lines proof_of_not_p) + 1]"
      "formula_of (lines out ! (length (lines proof_of_p) - 1)) =
         conclusion (statement proof_of_p)"
      by blast
    from res l have l3: "lines out ! 3 = Line (Neg (Var ''p'')) MP [1, 2]"
      and l1: "formula_of (lines out ! 1) = Var ''p''" by simp_all
    from len have "3 < length (lines out)" by (simp add: lp ln)
    with every l3 obtain a b where "[1, 2] = [a, b]"
      and "formula_of (lines out ! b) = Implies (formula_of (lines out ! a)) (Neg (Var ''p''))"
      by blast
    then have "formula_of (lines out ! 2) =
        Implies (formula_of (lines out ! 1)) (Neg (Var ''p''))"
      by simp
    with l1 have l2: "formula_of (lines out ! 2) = Implies (Var ''p'') (Neg (Var ''p''))"
      by simp
    from res emitted l3 l1 l2 show ?thesis
      by (intro exI[of _ out]) (simp add: lp ln cp eval_nat_numeral)
  qed
  from vx vy vp vn s1 s2 e1 e2 e3 show ?thesis by blast
qed

section \<open>Removing an assumption\<close>

text \<open>
  On a valid proof the loop of \<^verbatim>\<open>remove_assumption\<close> never raises: a valid line
  justified by \<^verbatim>\<open>MP\<close> has exactly two references, both to earlier lines. So the
  function returns, and what it returns is fixed by its last statement.
\<close>

lemma remove_assumption_step_returns:
  assumes "is_line_valid p i" and "i < length (lines p)"
  shows "\<exists>new_lines'. remove_assumption_step p assumption new_lines (lines p ! i) = Inr new_lines'"
proof (cases "lines p ! i")
  case (AssumptionLine f)
  then show ?thesis by simp
next
  case (Line f r refs)
  show ?thesis
  proof (cases "r = MP")
    case True
    with Line assms(1) obtain a b where "refs = [a, b]" "a < i" "b < i"
      using MP_line_has_two_references by blast
    with Line True assms(2) show ?thesis by simp
  next
    case False
    with Line show ?thesis by simp
  qed
qed

lemma remove_assumption_loop_returns:
  assumes "\<forall>l \<in> set ls. \<forall>acc. \<exists>acc'. remove_assumption_step p assumption acc l = Inr acc'"
  shows "\<exists>new_lines'. remove_assumption_loop p assumption new_lines ls = Inr new_lines'"
  using assms
proof (induction ls arbitrary: new_lines)
  case Nil
  then show ?case by simp
next
  case (Cons l ls)
  then obtain acc' where "remove_assumption_step p assumption new_lines l = Inr acc'"
    by (meson list.set_intros(1))
  moreover from Cons obtain r where "remove_assumption_loop p assumption acc' ls = Inr r"
    by (meson list.set_intros(2))
  ultimately show ?case by simp
qed

lemma remove_assumption_result:
  assumes v: "is_valid p" and ne: "assumptions (statement p) \<noteq> []"
    and rs: "\<forall>r \<in> rules p. r = MP \<or> length (assumptions r) = 0"
  shows "remove_assumption p =
     Inr \<lparr>statement =
            \<lparr>assumptions = butlast (assumptions (statement p)),
             conclusion = Implies (last (assumptions (statement p))) (conclusion (statement p))\<rparr>,
          rules = rules p \<union> {MP, I0, I1, D},
          lines = []\<rparr>"
proof -
  have "\<forall>l \<in> set (lines p). \<forall>acc. \<exists>acc'.
      remove_assumption_step p (last (assumptions (statement p))) acc l = Inr acc'"
  proof (intro ballI allI)
    fix l acc assume "l \<in> set (lines p)"
    then obtain i where i: "i < length (lines p)" and l: "l = lines p ! i"
      by (auto simp: in_set_conv_nth)
    from v i have "is_line_valid p i" by (simp add: is_valid_iff)
    from remove_assumption_step_returns[OF this i] l
    show "\<exists>acc'. remove_assumption_step p (last (assumptions (statement p))) acc l = Inr acc'"
      by simp
  qed
  from remove_assumption_loop_returns[OF this] obtain new_lines where
    "remove_assumption_loop p (last (assumptions (statement p))) [] (lines p) = Inr new_lines"
    by blast
  with v ne rs show ?thesis
    by (simp add: remove_assumption_def Let_def)
qed

text \<open>
  Claim C1 says that \<^verbatim>\<open>remove_assumption\<close>, on a valid proof with at least one
  assumption whose rules are \<^verbatim>\<open>MP\<close> or assumptionless, returns a valid proof of
  "(phi->psi)" from the assumptions without the last one, via the rules together with
  \<^verbatim>\<open>MP\<close>, \<^verbatim>\<open>I0\<close>, \<^verbatim>\<open>I1\<close>, \<^verbatim>\<open>D\<close>. The code does return a proof with that statement
  and that rule set, but with no lines at all, so the proof it returns is never
  valid. On the two-line proof of "p" from "q" and "p" the loop builds two lines
  "(p->p)" by \<^verbatim>\<open>I0\<close>, and the proof returned has none.
\<close>

theorem remove_assumption_returns_no_lines:
  assumes "is_valid p" and "assumptions (statement p) \<noteq> []"
    and "\<forall>r \<in> rules p. r = MP \<or> length (assumptions r) = 0"
  shows "\<exists>out. remove_assumption p = Inr out \<and>
     statement out =
       \<lparr>assumptions = butlast (assumptions (statement p)),
        conclusion = Implies (last (assumptions (statement p))) (conclusion (statement p))\<rparr> \<and>
     rules out = rules p \<union> {MP, I0, I1, D} \<and>
     lines out = [] \<and> \<not> is_valid out"
  using remove_assumption_result[OF assms] by (simp add: is_valid_def)

theorem remove_assumption_returns_no_lines_witness:
  "is_valid two_line_proof \<and> assumptions (statement two_line_proof) \<noteq> [] \<and>
   remove_assumption_loop two_line_proof (Var ''p'') [] (lines two_line_proof) =
     Inr [Line (Implies (Var ''p'') (Var ''p'')) I0 [],
          Line (Implies (Var ''p'') (Var ''p'')) I0 []] \<and>
   (\<exists>out. remove_assumption two_line_proof = Inr out \<and>
      statement out =
        \<lparr>assumptions = [Var ''q''], conclusion = Implies (Var ''p'') (Var ''p'')\<rparr> \<and>
      rules out = {MP, I0, I1, D} \<and>
      lines out = [] \<and> \<not> is_valid out)"
proof -
  have v: "is_valid two_line_proof" by code_simp
  have ne: "assumptions (statement two_line_proof) \<noteq> []" by (simp add: two_line_proof_def)
  have rs: "\<forall>r \<in> rules two_line_proof. r = MP \<or> length (assumptions r) = 0"
    by (simp add: two_line_proof_def)
  have l: "remove_assumption_loop two_line_proof (Var ''p'') [] (lines two_line_proof) =
     Inr [Line (Implies (Var ''p'') (Var ''p'')) I0 [],
          Line (Implies (Var ''p'') (Var ''p'')) I0 []]"
    by (simp add: two_line_proof_def)
  from remove_assumption_returns_no_lines [OF v ne rs] v ne l show ?thesis
    by (simp add: two_line_proof_def insert_commute)
qed

section \<open>Proving by way of contradiction\<close>

text \<open>
  Claim C2 says that \<^verbatim>\<open>prove_by_way_of_contradiction\<close>, on a valid proof of
  "~(p->p)" whose last assumption is "~phi" and whose rules are \<^verbatim>\<open>MP\<close> or
  assumptionless, returns a valid proof of "phi". The code never does: where the
  module has no global \<^verbatim>\<open>rules\<close> the call raises, and whatever such a global holds,
  a proof that is returned has no lines and is not valid.
\<close>

theorem prove_by_way_of_contradiction_never_valid:
  "(\<exists>e. prove_by_way_of_contradiction None p = Inl e) \<and>
   (prove_by_way_of_contradiction rules_global p = Inr q \<longrightarrow> lines q = [] \<and> \<not> is_valid q)"
proof
  show "\<exists>e. prove_by_way_of_contradiction None p = Inl e"
    by (simp add: prove_by_way_of_contradiction_def Let_def split: sum.splits)
  show "prove_by_way_of_contradiction rules_global p = Inr q \<longrightarrow> lines q = [] \<and> \<not> is_valid q"
    by (auto simp: prove_by_way_of_contradiction_def Let_def is_valid_def
        split: if_splits sum.splits option.splits)
qed

theorem prove_by_way_of_contradiction_never_valid_witness:
  "is_valid contradiction_proof \<and>
   prove_by_way_of_contradiction None contradiction_proof = Inl NameError \<and>
   prove_by_way_of_contradiction (Some {MP}) contradiction_proof =
     Inr \<lparr>statement = \<lparr>assumptions = [], conclusion = Implies (Var ''p'') (Var ''p'')\<rparr>,
          rules = {MP}, lines = []\<rparr> \<and>
   \<not> is_valid
       \<lparr>statement = \<lparr>assumptions = [], conclusion = Implies (Var ''p'') (Var ''p'')\<rparr>,
        rules = {MP}, lines = []\<rparr>"
proof -
  have v: "is_valid contradiction_proof" by code_simp
  have n: "prove_by_way_of_contradiction None contradiction_proof = Inl NameError"
    by code_simp
  have r: "prove_by_way_of_contradiction (Some {MP}) contradiction_proof =
     Inr \<lparr>statement = \<lparr>assumptions = [], conclusion = Implies (Var ''p'') (Var ''p'')\<rparr>,
          rules = {MP}, lines = []\<rparr>"
    by code_simp
  from prove_by_way_of_contradiction_never_valid [of contradiction_proof "Some {MP}"] v n r
  show ?thesis by simp
qed

lemma prove_by_way_of_contradiction_result:
  assumes "is_valid p" and "conclusion (statement p) = Neg (Implies (Var ''p'') (Var ''p''))"
    and "assumptions (statement p) \<noteq> []"
    and "last (assumptions (statement p)) = Neg f"
    and "\<forall>r \<in> rules p. r = MP \<or> length (assumptions r) = 0"
  shows "prove_by_way_of_contradiction rules_global p =
     (case rules_global of
        None \<Rightarrow> Inl NameError
      | Some rs \<Rightarrow>
          Inr \<lparr>statement = \<lparr>assumptions = butlast (assumptions (statement p)), conclusion = f\<rparr>,
               rules = rs, lines = []\<rparr>)"
  using assms by (simp add: prove_by_way_of_contradiction_def Let_def)

lemma contradiction_by_composition_result:
  assumes "is_valid p" and "assumptions (statement p) \<noteq> []"
    and "last (assumptions (statement p)) = Neg f"
    and "\<forall>r \<in> rules p. r = MP \<or> length (assumptions r) = 0"
  shows "contradiction_by_composition N p = Inl AssertionError"
  using remove_assumption_result[OF assms(1,2,4)] assms(3)
  by (simp add: contradiction_by_composition_def prove_corollary_def is_valid_def)

text \<open>
  Claim C3 says that what \<^verbatim>\<open>prove_by_way_of_contradiction\<close> returns is the proof
  obtained by \<^verbatim>\<open>remove_assumption\<close> followed by \<^verbatim>\<open>prove_corollary\<close> with the schema
  \<open>N\<close>. On the code, for every input that meets the preconditions, the composition
  raises \<^verbatim>\<open>AssertionError\<close> (\<^verbatim>\<open>prove_corollary\<close> rejects the proof without lines that
  \<^verbatim>\<open>remove_assumption\<close> returns), whatever \<open>N\<close> is, while the function itself
  raises \<^verbatim>\<open>NameError\<close> or returns a proof without lines: the two never agree.
\<close>

theorem contradiction_differs_from_composition:
  assumes "is_valid p" and "conclusion (statement p) = Neg (Implies (Var ''p'') (Var ''p''))"
    and "assumptions (statement p) \<noteq> []"
    and "last (assumptions (statement p)) = Neg f"
    and "\<forall>r \<in> rules p. r = MP \<or> length (assumptions r) = 0"
  shows "contradiction_by_composition N p = Inl AssertionError \<and>
     prove_by_way_of_contradiction rules_global p \<noteq> Inl AssertionError \<and>
     prove_by_way_of_contradiction rules_global p \<noteq> contradiction_by_composition N p"
  using prove_by_way_of_contradiction_result[OF assms, of rules_global]
    contradiction_by_composition_result[OF assms(1,3,4,5), of N]
  by (simp split: option.splits)

theorem contradiction_differs_from_composition_witness:
  "is_valid contradiction_proof \<and>
   conclusion (statement contradiction_proof) = Neg (Implies (Var ''p'') (Var ''p'')) \<and>
   assumptions (statement contradiction_proof) \<noteq> [] \<and>
   last (assumptions (statement contradiction_proof)) = Neg (Implies (Var ''p'') (Var ''p'')) \<and>
   contradiction_by_composition I2 contradiction_proof = Inl AssertionError \<and>
   prove_by_way_of_contradiction None contradiction_proof = Inl NameError \<and>
   prove_by_way_of_contradiction None contradiction_proof \<noteq>
     contradiction_by_composition I2 contradiction_proof"
proof -
  have v: "is_valid contradiction_proof" by code_simp
  have c: "conclusion (statement contradiction_proof) = Neg (Implies (Var ''p'') (Var ''p''))"
    by (simp add: contradiction_proof_def)
  have ne: "assumptions (statement contradiction_proof) \<noteq> []"
    by (simp add: contradiction_proof_def)
  have l: "last (assumptions (statement contradiction_proof)) = Neg (Implies (Var ''p'') (Var ''p''))"
    by (simp add: contradiction_proof_def)
  have rs: "\<forall>r \<in> rules contradiction_proof. r = MP \<or> length (assumptions r) = 0"
    by (simp add: contradiction_proof_def)
  have n: "prove_by_way_of_contradiction None contradiction_proof = Inl NameError"
    by code_simp
  from contradiction_differs_from_composition [OF v c ne l rs, of I2 None] v c ne l n
  show ?thesis by simp
qed

section \<open>No maneuver changes an object of the store\<close>

text \<open>
  Every write of a maneuver goes to an object the maneuver itself has created: the
  only list it appends to is the one it has allocated.
\<close>

lemma alloc_frame: "alloc ob h = (a, h') \<Longrightarrow> n \<le> length h \<Longrightarrow>
    n \<le> length h' \<and> take n h' = take n h \<and> a = length h \<and> length h' = Suc (length h)"
  by (auto simp: alloc_def)

lemma list_append_frame: "n \<le> l \<Longrightarrow> take n (list_append l x h) = take n h"
  by (auto simp: list_append_def split: obj.splits)

lemma list_append_length [simp]: "length (list_append l x h) = length h"
  by (auto simp: list_append_def split: obj.splits)

lemma emit_frame:
  "n \<le> l \<Longrightarrow> n \<le> length h \<Longrightarrow>
     take n (emit l h it) = take n h \<and> length h \<le> length (emit l h it)"
  by (cases it) (auto simp: alloc_def list_append_frame)

lemma build_frame:
  "n \<le> l \<Longrightarrow> n \<le> length h \<Longrightarrow>
     take n (build l items h) = take n h \<and> length h \<le> length (build l items h)"
proof (induction items arbitrary: h)
  case Nil
  then show ?case by (simp add: build_def)
next
  case (Cons it items)
  from emit_frame[OF Cons.prems, of it] have e: "take n (emit l h it) = take n h"
    and len: "length h \<le> length (emit l h it)" by auto
  from Cons.prems len have "n \<le> length (emit l h it)" by simp
  from Cons.IH[OF Cons.prems(1) this] e len show ?case
    by (simp add: build_def)
qed

lemma new_proof_frame:
  assumes "new_proof st rs items h = (p, h')" and "n \<le> length h"
  shows "take n h' = take n h \<and> length h < length h' \<and> p < length h' \<and> length h \<le> p \<and>
     (\<exists>l. h' ! p = ProofObj st rs l \<and> length h \<le> l)"
proof -
  define h1 where "h1 = h @ [ListObj []]"
  define h2 where "h2 = build (length h) items h1"
  from assms(1) have p: "p = length h2" and h': "h' = h2 @ [ProofObj st rs (length h)]"
    by (auto simp: new_proof_def alloc_def Let_def h1_def h2_def)
  have "length h \<le> length h1" by (simp add: h1_def)
  from build_frame[OF le_refl this, of items] have
    t: "take (length h) h2 = take (length h) h1" and len: "length h1 \<le> length h2"
    by (simp_all add: h2_def)
  from t have th: "take (length h) h2 = h" by (simp add: h1_def)
  have "take n (take (length h) h2) = take n h2"
    using assms(2) by (simp add: min_absorb1)
  with th have tn: "take n h2 = take n h" by simp
  from len have l2: "length h < length h2" by (simp add: h1_def)
  have "take n h' = take n h" using tn l2 assms(2) by (simp add: h')
  moreover have "length h < length h'" using l2 by (simp add: h')
  moreover have "p < length h'" by (simp add: p h')
  moreover have "length h \<le> p" using l2 by (simp add: p)
  moreover have "h' ! p = ProofObj st rs (length h)" by (simp add: p h')
  ultimately show ?thesis by blast
qed

lemma frame_error [simp]: "frame h (Inl e, h)"
  by (simp add: frame_def)

lemma take_all_length: "take (length h) h0 = h \<Longrightarrow> length h \<le> length h0"
proof -
  assume "take (length h) h0 = h"
  then have "length (take (length h) h0) = length h" by simp
  then show ?thesis by simp
qed

lemma new_proof_result_frame:
  assumes np: "new_proof st rs items h0 = (q, h')" and t: "take (length h) h0 = h"
  shows "frame h (Inr q, h')"
proof -
  from t have le: "length h \<le> length h0" by (rule take_all_length)
  from new_proof_frame[OF np le] t le show ?thesis
    by (auto simp: frame_def)
qed

lemma new_proof_take:
  "new_proof st rs items h = (q, h') \<Longrightarrow> take (length h) h' = h"
  using new_proof_frame[of st rs items h q h' "length h"] by simp

lemma prove_corollary_store_frame: "frame h (prove_corollary_store h pa c r)"
  unfolding prove_corollary_store_def Let_def
  by (auto split: option.splits prod.splits
      intro!: new_proof_result_frame dest: new_proof_take)

lemma combine_proofs_store_frame: "frame h (combine_proofs_store h pa1 pa2 c r)"
  unfolding combine_proofs_store_def Let_def
  by (auto split: option.splits prod.splits
      intro!: new_proof_result_frame)

lemma prove_from_opposites_store_frame: "frame h (prove_from_opposites_store h pa pn c)"
  unfolding prove_from_opposites_store_def Let_def
  by (auto split: option.splits prod.splits
      intro!: new_proof_result_frame)

lemma prove_by_way_of_contradiction_store_frame:
  "frame h (prove_by_way_of_contradiction_store g h pa)"
  unfolding prove_by_way_of_contradiction_store_def Let_def
  by (auto split: option.splits prod.splits sum.splits
      intro!: new_proof_result_frame)

lemma remove_assumption_loop_store_frame:
  assumes "remove_assumption_loop_store p a l acc lns h0 = (res, h')"
    and "n \<le> l" and "n \<le> length h0"
  shows "take n h' = take n h0"
  using assms
proof (induction lns arbitrary: acc h0)
  case Nil
  then show ?case by simp
next
  case (Cons ln lns)
  show ?case
  proof (cases "remove_assumption_step p a acc ln")
    case (Inl e)
    with Cons.prems show ?thesis by simp
  next
    case (Inr acc')
    define h1 where "h1 = build l (map New (drop (length acc) acc')) h0"
    from build_frame[OF Cons.prems(2,3)] have t: "take n h1 = take n h0"
      and len: "length h0 \<le> length h1" by (simp_all add: h1_def)
    from Cons.prems(1) Inr have "remove_assumption_loop_store p a l acc' lns h1 = (res, h')"
      by (simp add: h1_def)
    from Cons.IH[OF this Cons.prems(2)] Cons.prems(3) len t show ?thesis by simp
  qed
qed

lemma remove_assumption_store_frame: "frame h (remove_assumption_store h pa)"
proof -
  have *: "frame h (Inr q, h3)"
    if "remove_assumption_loop_store p a (length h) [] lns (h @ [ListObj []]) = (res, h2)"
      and "new_proof st rs [] h2 = (q, h3)" for p a lns res h2 st rs q h3
  proof -
    from remove_assumption_loop_store_frame[OF that(1) le_refl] have "take (length h) h2 = h"
      by simp
    with that(2) show ?thesis by (rule new_proof_result_frame)
  qed
  have **: "frame h (Inl e, h2)"
    if "remove_assumption_loop_store p a (length h) [] lns (h @ [ListObj []]) = (res, h2)"
    for p a lns res h2 e
  proof -
    from remove_assumption_loop_store_frame[OF that(1) le_refl] have "take (length h) h2 = h"
      by simp
    then show ?thesis by (simp add: frame_def)
  qed
  show ?thesis
    unfolding remove_assumption_store_def Let_def alloc_def
    by (auto split: option.splits prod.splits sum.splits intro: * **)
qed

lemma run_frame: "frame h (run g c h)"
  by (cases c)
     (simp_all add: prove_corollary_store_frame combine_proofs_store_frame
        remove_assumption_store_frame prove_from_opposites_store_frame
        prove_by_way_of_contradiction_store_frame)

lemma get_line_frame:
  "take (length h) h' = h \<Longrightarrow> get_line h a = Some ln \<Longrightarrow> get_line h' a = Some ln"
proof -
  assume t: "take (length h) h' = h" and g: "get_line h a = Some ln"
  from g have a: "a < length h" by (simp add: get_line_def split: if_splits)
  from t have "length h \<le> length h'" by (rule take_all_length)
  moreover from t a have "h' ! a = h ! a" by (metis nth_take)
  ultimately show ?thesis using g a by (simp add: get_line_def)
qed

lemma get_list_frame:
  "take (length h) h' = h \<Longrightarrow> get_list h l = Some xs \<Longrightarrow> get_list h' l = Some xs"
proof -
  assume t: "take (length h) h' = h" and g: "get_list h l = Some xs"
  from g have l: "l < length h" by (simp add: get_list_def split: if_splits)
  from t have "length h \<le> length h'" by (rule take_all_length)
  moreover from t l have "h' ! l = h ! l" by (metis nth_take)
  ultimately show ?thesis using g l by (simp add: get_list_def)
qed

lemma those_get_line_frame:
  "take (length h) h' = h \<Longrightarrow> those (map (get_line h) xs) = Some ls \<Longrightarrow>
     those (map (get_line h') xs) = Some ls"
proof (induction xs arbitrary: ls)
  case Nil
  then show ?case by simp
next
  case (Cons a xs)
  from Cons.prems(2) obtain ln ls' where ln: "get_line h a = Some ln"
    and ls': "those (map (get_line h) xs) = Some ls'" and ls: "ls = ln # ls'"
    by (auto split: option.splits)
  from get_line_frame[OF Cons.prems(1) ln] Cons.IH[OF Cons.prems(1) ls'] ls
  show ?case by simp
qed

lemma read_proof_frame:
  assumes t: "take (length h) h' = h" and r: "read_proof h p = Some P"
  shows "read_proof h' p = Some P"
proof -
  from r have p: "p < length h" by (simp add: read_proof_def split: if_splits)
  from r p obtain st rs l where ob: "h ! p = ProofObj st rs l"
    by (auto simp: read_proof_def split: obj.splits)
  from r p ob obtain ls where ls: "read_lines h l = Some ls"
    and P: "P = \<lparr>statement = st, rules = rs, lines = ls\<rparr>"
    by (auto simp: read_proof_def split: option.splits)
  from ls obtain xs where xs: "get_list h l = Some xs"
    and th: "those (map (get_line h) xs) = Some ls"
    by (auto simp: read_lines_def split: option.splits)
  from get_list_frame[OF t xs] those_get_line_frame[OF t th]
  have "read_lines h' l = Some ls" by (simp add: read_lines_def)
  moreover from t have "length h \<le> length h'" by (rule take_all_length)
  moreover from t p have "h' ! p = h ! p" by (metis nth_take)
  ultimately show ?thesis using p ob P by (simp add: read_proof_def)
qed

lemma run_calls_frame: "take (length h) (run_calls g cs h) = h"
proof (induction cs arbitrary: h)
  case Nil
  then show ?case by simp
next
  case (Cons c cs)
  obtain res h1 where r: "run g c h = (res, h1)" by (cases "run g c h")
  from run_frame[of h g c] r have t: "take (length h) h1 = h" by (simp add: frame_def)
  then have le: "length h \<le> length h1" by (rule take_all_length)
  from Cons.IH[of h1] have "take (length h1) (run_calls g cs h1) = h1" .
  then have "take (length h) (take (length h1) (run_calls g cs h1)) = take (length h) h1"
    by simp
  with le t have "take (length h) (run_calls g cs h1) = h" by (simp add: min_absorb1)
  with r show ?case by simp
qed

text \<open>
  Claim C9. No maneuver mutates its input proofs. For every call of
  \<^verbatim>\<open>prove_corollary\<close>, \<^verbatim>\<open>combine_proofs\<close>, \<^verbatim>\<open>remove_assumption\<close>,
  \<^verbatim>\<open>prove_from_opposites\<close> or \<^verbatim>\<open>prove_by_way_of_contradiction\<close>, whether it returns or
  raises: every object that was in the store before the call is the same after it,
  so every proof that could be read before the call (the inputs among them) reads
  the same after it: same statement, same rules, same lines with the same formulas,
  rules and references. A proof that is returned has a line sequence of its own, an
  object that did not exist before the call. The same holds after any sequence of
  further calls, also calls that are given the returned proof and re-index its
  lines.
\<close>

theorem maneuvers_do_not_mutate:
  "(run rules_global c h = (res, h') \<longrightarrow>
      take (length h) h' = h \<and>
      (\<forall>p P. read_proof h p = Some P \<longrightarrow> read_proof h' p = Some P) \<and>
      (\<forall>q. res = Inr q \<longrightarrow> (\<exists>st rs l. h' ! q = ProofObj st rs l \<and> length h \<le> l))) \<and>
   take (length h) (run_calls rules_global cs h) = h \<and>
   (\<forall>p P. read_proof h p = Some P \<longrightarrow>
      read_proof (run_calls rules_global cs h) p = Some P)"
proof (intro conjI impI)
  assume r: "run rules_global c h = (res, h')"
  from run_frame[of h rules_global c] r have f: "frame h (res, h')" by simp
  then show t: "take (length h) h' = h" by (simp add: frame_def)
  from t show "\<forall>p P. read_proof h p = Some P \<longrightarrow> read_proof h' p = Some P"
    using read_proof_frame by blast
  show "\<forall>q. res = Inr q \<longrightarrow> (\<exists>st rs l. h' ! q = ProofObj st rs l \<and> length h \<le> l)"
  proof (intro allI impI)
    fix q assume "res = Inr q"
    with f show "\<exists>st rs l. h' ! q = ProofObj st rs l \<and> length h \<le> l"
      by (cases "h' ! q") (auto simp: frame_def)
  qed
next
  show t: "take (length h) (run_calls rules_global cs h) = h" by (rule run_calls_frame)
  then show "\<forall>p P. read_proof h p = Some P \<longrightarrow>
      read_proof (run_calls rules_global cs h) p = Some P"
    using read_proof_frame by blast
qed

theorem maneuvers_do_not_mutate_witness:
  "read_proof heap_of_x_and_y 2 = Some proof_of_x \<and>
   read_proof heap_of_x_and_y 6 = Some proof_of_y \<and>
   length heap_of_x_and_y = 7 \<and>
   take 7 (snd (run None (CombineProofs 2 6 (Var ''x'') I1) heap_of_x_and_y)) =
     heap_of_x_and_y \<and>
   read_proof (snd (run None (CombineProofs 2 6 (Var ''x'') I1) heap_of_x_and_y)) 2 =
     Some proof_of_x \<and>
   read_proof (snd (run None (CombineProofs 2 6 (Var ''x'') I1) heap_of_x_and_y)) 6 =
     Some proof_of_y \<and>
   (\<exists>q st rs l.
      fst (run None (CombineProofs 2 6 (Var ''x'') I1) heap_of_x_and_y) = Inr q \<and>
      snd (run None (CombineProofs 2 6 (Var ''x'') I1) heap_of_x_and_y) ! q =
        ProofObj st rs l \<and> 7 \<le> l)"
proof -
  let ?r = "run None (CombineProofs 2 6 (Var ''x'') I1) heap_of_x_and_y"
  have e: "?r = (fst ?r, snd ?r)" by simp
  have x: "read_proof heap_of_x_and_y 2 = Some proof_of_x" by code_simp
  have y: "read_proof heap_of_x_and_y 6 = Some proof_of_y" by code_simp
  have len: "length heap_of_x_and_y = 7" by (simp add: heap_of_x_and_y_def)
  have vx: "is_valid proof_of_x" by code_simp
  have vy: "is_valid proof_of_y" by code_simp
  have s: "is_specialization_of
     \<lparr>assumptions = [],
      conclusion = Implies (conclusion (statement proof_of_x))
                     (Implies (conclusion (statement proof_of_y)) (Var ''x''))\<rparr> I1"
    by code_simp
  have a: "assumptions (statement proof_of_x) = assumptions (statement proof_of_y)"
    and r: "rules proof_of_x = rules proof_of_y"
    by (simp_all add: proof_of_x_def proof_of_y_def)
  from s obtain m where m: "specialization_map I1
     \<lparr>assumptions = [],
      conclusion = Implies (conclusion (statement proof_of_x))
                     (Implies (conclusion (statement proof_of_y)) (Var ''x''))\<rparr> = Some m"
    by (auto simp: is_specialization_of_def)
  have q: "\<exists>q. fst ?r = Inr q"
    using x y vx vy s a r m
    by (simp add: combine_proofs_store_def Let_def split: prod.splits)
  note fr = maneuvers_do_not_mutate
    [of None "CombineProofs 2 6 (Var ''x'') I1" heap_of_x_and_y "fst ?r" "snd ?r" "[]"]
  from fr e have t: "take (length heap_of_x_and_y) (snd ?r) = heap_of_x_and_y"
    by blast
  from fr e x have x': "read_proof (snd ?r) 2 = Some proof_of_x" by blast
  from fr e y have y': "read_proof (snd ?r) 6 = Some proof_of_y" by blast
  from fr e q have "\<exists>q st rs l. fst ?r = Inr q \<and> snd ?r ! q = ProofObj st rs l \<and>
      length heap_of_x_and_y \<le> l"
    by blast
  with x y len t x' y' show ?thesis by simp
qed

section \<open>The maneuvers over the store compute what the functions compute\<close>

text \<open>
  Run on a store in which the input proofs are read, a maneuver raises exactly when
  the function on the proofs read raises, with the same error; and when it returns,
  the proof read at the address it returns is the proof the function returns.
\<close>

lemma those_eq_Some: "those xs = Some ys \<longleftrightarrow> xs = map Some ys"
proof (induction xs arbitrary: ys)
  case Nil
  then show ?case by auto
next
  case (Cons x xs)
  then show ?case by (cases x) (auto split: option.splits)
qed

lemma get_line_list_append:
  "a \<noteq> l \<Longrightarrow> get_line (list_append l x h) a = get_line h a"
  by (auto simp: get_line_def list_append_def split: obj.splits)

lemma get_line_not_list:
  "get_list h l = Some xs \<Longrightarrow> get_line h a = Some ln \<Longrightarrow> a \<noteq> l"
  by (auto simp: get_line_def get_list_def split: if_splits obj.splits)

lemma get_line_emit:
  assumes "a \<noteq> l" and "get_line h a = Some ln"
  shows "get_line (emit l h it) a = Some ln"
proof (cases it)
  case (Copy b)
  with assms show ?thesis by (simp add: get_line_list_append)
next
  case (New ln')
  from assms(2) have "a < length h" by (simp add: get_line_def split: if_splits)
  with assms(2) have "get_line (h @ [LineObj ln']) a = Some ln"
    by (simp add: get_line_def nth_append)
  with New assms(1) show ?thesis by (simp add: alloc_def get_line_list_append)
qed

lemma get_list_emit:
  assumes l: "get_list h l = Some xs" and it: "item_line h it = Some ln"
  shows "\<exists>x. get_list (emit l h it) l = Some (xs @ [x]) \<and> get_line (emit l h it) x = Some ln"
proof (cases it)
  case (Copy a)
  with it have a: "get_line h a = Some ln" by simp
  from get_line_not_list[OF l a] have ne: "a \<noteq> l" .
  from l have "get_list (list_append l a h) l = Some (xs @ [a])"
    by (auto simp: get_list_def list_append_def split: if_splits obj.splits)
  moreover from ne a have "get_line (list_append l a h) a = Some ln"
    by (simp add: get_line_list_append)
  ultimately show ?thesis using Copy by auto
next
  case (New ln')
  with it have ln: "ln' = ln" by simp
  from l have ll: "l < length h" by (simp add: get_list_def split: if_splits)
  from l ll have "get_list (list_append l (length h) (h @ [LineObj ln])) l = Some (xs @ [length h])"
    by (auto simp: get_list_def list_append_def nth_append split: if_splits obj.splits)
  moreover from ll have "get_line (list_append l (length h) (h @ [LineObj ln])) (length h) = Some ln"
    by (simp add: get_line_list_append) (simp add: get_line_def)
  ultimately show ?thesis using New ln by (auto simp: alloc_def)
qed

lemma item_line_emit:
  assumes l: "get_list h l = Some xs" and it: "item_line h it' = Some ln"
  shows "item_line (emit l h it) it' = Some ln"
proof (cases it')
  case (Copy a)
  with it have a: "get_line h a = Some ln" by simp
  from get_line_emit[OF get_line_not_list[OF l a] a] Copy show ?thesis by simp
next
  case (New ln')
  with it show ?thesis by simp
qed

lemma build_read:
  assumes "get_list h l = Some xs"
    and "map (get_line h) xs = map Some ls0"
    and "map (item_line h) items = map Some lns"
  shows "\<exists>ys. get_list (build l items h) l = Some ys \<and>
     map (get_line (build l items h)) ys = map Some (ls0 @ lns)"
  using assms
proof (induction items arbitrary: h xs ls0 lns)
  case Nil
  then show ?case by (simp add: build_def)
next
  case (Cons it items)
  from Cons.prems(3) obtain ln lns' where lns: "lns = ln # lns'"
    and it: "item_line h it = Some ln"
    and rest: "map (item_line h) items = map Some lns'"
    by (cases lns) auto
  define h1 where "h1 = emit l h it"
  from get_list_emit[OF Cons.prems(1) it] obtain x where
    l1: "get_list h1 l = Some (xs @ [x])" and x: "get_line h1 x = Some ln"
    by (auto simp: h1_def)
  have pres: "get_line h1 a = Some k" if "get_line h a = Some k" for a k
    unfolding h1_def
    using get_line_emit[OF get_line_not_list[OF Cons.prems(1) that] that] .
  have "map (get_line h1) xs = map Some ls0"
  proof (rule nth_equalityI)
    show "length (map (get_line h1) xs) = length (map Some ls0)"
      using Cons.prems(2) by (metis length_map)
    fix i assume i: "i < length (map (get_line h1) xs)"
    then have "get_line h (xs ! i) = Some (ls0 ! i)"
      using Cons.prems(2) by (metis length_map nth_map)
    from pres[OF this] i show "map (get_line h1) xs ! i = map Some ls0 ! i"
      using Cons.prems(2) by (metis length_map nth_map)
  qed
  with x have m1: "map (get_line h1) (xs @ [x]) = map Some (ls0 @ [ln])" by simp
  have "map (item_line h1) items = map Some lns'"
  proof (rule nth_equalityI)
    show "length (map (item_line h1) items) = length (map Some lns')"
      using rest by (metis length_map)
    fix i assume i: "i < length (map (item_line h1) items)"
    then have "item_line h (items ! i) = Some (lns' ! i)"
      using rest by (metis length_map nth_map)
    from item_line_emit[OF Cons.prems(1) this, of it] i
    show "map (item_line h1) items ! i = map Some lns' ! i"
      using rest by (metis h1_def length_map nth_map)
  qed
  from Cons.IH[OF l1 m1 this] show ?case
    by (simp add: build_def h1_def lns)
qed

lemma map_get_line_frame:
  assumes "take (length h) h' = h" and "map (get_line h) xs = map Some ls"
  shows "map (get_line h') xs = map Some ls"
  using those_get_line_frame[OF assms(1), of xs ls] assms(2)
  by (simp add: those_eq_Some)

lemma map_item_line_frame:
  assumes t: "take (length h) h' = h" and m: "map (item_line h) items = map Some lns"
  shows "map (item_line h') items = map Some lns"
proof (rule nth_equalityI)
  show "length (map (item_line h') items) = length (map Some lns)"
    using m by (metis length_map)
  fix i assume i: "i < length (map (item_line h') items)"
  then have a: "item_line h (items ! i) = Some (lns ! i)"
    using m by (metis length_map nth_map)
  have "item_line h' (items ! i) = Some (lns ! i)"
  proof (cases "items ! i")
    case (Copy b)
    with a get_line_frame[OF t] show ?thesis by simp
  next
    case (New ln)
    with a show ?thesis by simp
  qed
  with i show "map (item_line h') items ! i = map Some lns ! i"
    using m by (metis length_map nth_map)
qed

lemma new_proof_read:
  assumes m: "map (item_line h) items = map Some lns"
    and np: "new_proof st rs items h = (q, h')"
  shows "read_proof h' q = Some \<lparr>statement = st, rules = rs, lines = lns\<rparr>"
proof -
  define h1 where "h1 = h @ [ListObj []]"
  define h2 where "h2 = build (length h) items h1"
  from np have q: "q = length h2" and h': "h' = h2 @ [ProofObj st rs (length h)]"
    by (auto simp: new_proof_def alloc_def Let_def h1_def h2_def)
  have t1: "take (length h) h1 = h" by (simp add: h1_def)
  have l1: "get_list h1 (length h) = Some []" by (simp add: get_list_def h1_def)
  from build_read[OF l1 _ map_item_line_frame[OF t1 m], of "[]"] obtain ys where
    ys: "get_list h2 (length h) = Some ys"
    and ls: "map (get_line h2) ys = map Some lns"
    by (auto simp: h2_def)
  have t2: "take (length h2) h' = h2" by (simp add: h')
  from get_list_frame[OF t2 ys] map_get_line_frame[OF t2 ls]
  have "read_lines h' (length h) = Some lns"
    by (simp add: read_lines_def those_eq_Some)
  then show ?thesis by (simp add: read_proof_def q h')
qed

lemma read_proof_addrs:
  assumes "read_proof h p = Some P"
  shows "map (get_line h) (line_addrs h p) = map Some (lines P)"
  using assms
  by (auto simp: read_proof_def read_lines_def line_addrs_def those_eq_Some
      split: if_splits obj.splits option.splits)

lemma map_item_line_Copy:
  "map (get_line h) xs = map Some ls \<Longrightarrow> map (item_line h) (map Copy xs) = map Some ls"
  by (simp add: comp_def)

lemma item_line_shift_item:
  "get_line h a = Some ln \<Longrightarrow> item_line h (shift_item h n a) = Some (shift_line n ln)"
  by (cases ln) (simp_all add: shift_item_def)

lemma map_item_line_shift:
  assumes "map (get_line h) xs = map Some ls"
  shows "map (item_line h) (map (shift_item h n) xs) = map Some (map (shift_line n) ls)"
proof (rule nth_equalityI)
  show "length (map (item_line h) (map (shift_item h n) xs)) =
      length (map Some (map (shift_line n) ls))"
    using assms by (metis length_map)
  fix i assume i: "i < length (map (item_line h) (map (shift_item h n) xs))"
  then have ix: "i < length xs" by simp
  with assms have il: "i < length ls" by (metis length_map)
  from assms ix have "get_line h (xs ! i) = Some (ls ! i)" by (metis length_map nth_map)
  from item_line_shift_item[OF this, of n] ix il
  show "map (item_line h) (map (shift_item h n) xs) ! i =
      map Some (map (shift_line n) ls) ! i"
    by simp
qed

lemma prove_corollary_store_refines:
  assumes rp: "read_proof h pa = Some P"
    and run: "prove_corollary_store h pa c r = (res, h')"
  shows "case res of
      Inl e \<Rightarrow> prove_corollary P c r = Inl e
    | Inr q \<Rightarrow> \<exists>Q. read_proof h' q = Some Q \<and> prove_corollary P c r = Inr Q"
proof -
  consider (invalid) "\<not> is_valid P"
    | (mismatch) "is_valid P" "\<not> is_specialization_of
       \<lparr>assumptions = [], conclusion = Implies (conclusion (statement P)) c\<rparr> r"
    | (ok) "is_valid P" "is_specialization_of
       \<lparr>assumptions = [], conclusion = Implies (conclusion (statement P)) c\<rparr> r"
    by blast
  then show ?thesis
  proof cases
    case invalid
    with rp run show ?thesis
      by (auto simp: prove_corollary_store_def prove_corollary_def)
  next
    case mismatch
    with rp run show ?thesis
      by (auto simp: prove_corollary_store_def prove_corollary_def)
  next
    case ok
    then have v: "is_valid P" and s: "is_specialization_of
       \<lparr>assumptions = [], conclusion = Implies (conclusion (statement P)) c\<rparr> r" by auto
  from s obtain m where m: "specialization_map r
      \<lparr>assumptions = [], conclusion = Implies (conclusion (statement P)) c\<rparr> = Some m"
    by (auto simp: is_specialization_of_def)
  define sc where "sc = specialize r m"
  define l0 where "l0 = Line (conclusion sc) sc []"
  define l1 where "l1 = Line c MP [length (lines P) - 1, length (lines P) - 1 + 1]"
  obtain ip h1 where np1: "new_proof
      \<lparr>assumptions = [], conclusion = Implies (conclusion (statement P)) c\<rparr>
      (rules P \<union> {MP, r}) [New l0] h = (ip, h1)"
    by (cases "new_proof
      \<lparr>assumptions = [], conclusion = Implies (conclusion (statement P)) c\<rparr>
      (rules P \<union> {MP, r}) [New l0] h")
  obtain q h2 where np2: "new_proof
      \<lparr>assumptions = assumptions (statement P), conclusion = c\<rparr>
      (rules P \<union> {MP, r}) (map Copy (line_addrs h pa) @ [New l0, New l1]) h1 = (q, h2)"
    by (cases "new_proof
      \<lparr>assumptions = assumptions (statement P), conclusion = c\<rparr>
      (rules P \<union> {MP, r}) (map Copy (line_addrs h pa) @ [New l0, New l1]) h1")
  from rp run v s m np1 np2 have res: "res = Inr q" and h': "h' = h2"
    by (simp_all add: prove_corollary_store_def Let_def sc_def l0_def l1_def)
  from new_proof_take[OF np1] have t: "take (length h) h1 = h" .
  have "map (item_line h) (map Copy (line_addrs h pa) @ [New l0, New l1]) =
      map Some (lines P @ [l0, l1])"
    using map_item_line_Copy[OF read_proof_addrs[OF rp]] by simp
  from new_proof_read[OF map_item_line_frame[OF t this] np2]
  have "read_proof h2 q = Some
      \<lparr>statement = \<lparr>assumptions = assumptions (statement P), conclusion = c\<rparr>,
       rules = rules P \<union> {MP, r}, lines = lines P @ [l0, l1]\<rparr>" .
  moreover from v s m have "prove_corollary P c r = Inr
      \<lparr>statement = \<lparr>assumptions = assumptions (statement P), conclusion = c\<rparr>,
       rules = rules P \<union> {MP, r}, lines = lines P @ [l0, l1]\<rparr>"
    by (simp add: prove_corollary_def Let_def sc_def l0_def l1_def)
  ultimately show ?thesis by (simp add: res h')
  qed
qed

lemma combine_proofs_store_refines:
  assumes rp1: "read_proof h pa1 = Some P1" and rp2: "read_proof h pa2 = Some P2"
    and run: "combine_proofs_store h pa1 pa2 c r = (res, h')"
  shows "case res of
      Inl e \<Rightarrow> combine_proofs P1 P2 c r = Inl e
    | Inr q \<Rightarrow> \<exists>Q. read_proof h' q = Some Q \<and> combine_proofs P1 P2 c r = Inr Q"
proof (cases "is_valid P1 \<and> is_valid P2 \<and>
    assumptions (statement P1) = assumptions (statement P2) \<and> rules P1 = rules P2 \<and>
    is_specialization_of
      \<lparr>assumptions = [],
       conclusion = Implies (conclusion (statement P1))
                      (Implies (conclusion (statement P2)) c)\<rparr> r")
  case False
  with rp1 rp2 run show ?thesis
    by (auto simp: combine_proofs_store_def combine_proofs_def split: if_splits)
next
  case True
  then have v1: "is_valid P1" and v2: "is_valid P2"
    and a: "assumptions (statement P1) = assumptions (statement P2)"
    and rr: "rules P1 = rules P2"
    and s: "is_specialization_of
      \<lparr>assumptions = [],
       conclusion = Implies (conclusion (statement P1))
                      (Implies (conclusion (statement P2)) c)\<rparr> r"
    by auto
  from s obtain m where m: "specialization_map r
      \<lparr>assumptions = [],
       conclusion = Implies (conclusion (statement P1))
                      (Implies (conclusion (statement P2)) c)\<rparr> = Some m"
    by (auto simp: is_specialization_of_def)
  define n1 where "n1 = length (lines P1)"
  define n2 where "n2 = length (lines P2)"
  define l0 where "l0 = Line (conclusion (specialize r m)) (specialize r m) []"
  define l1 where "l1 = Line (Implies (conclusion (statement P2)) c) MP [n1 - 1, n1 + n2]"
  define l2 where "l2 = Line c MP [n1 + n2 - 1, n1 + n2 + 1]"
  define items where "items =
     map Copy (line_addrs h pa1) @ map (shift_item h n1) (line_addrs h pa2) @
     [New l0, New l1, New l2]"
  define st where "st = \<lparr>assumptions = assumptions (statement P1), conclusion = c\<rparr>"
  obtain q h1 where np: "new_proof st (rules P1 \<union> {MP, r}) items h = (q, h1)"
    by (cases "new_proof st (rules P1 \<union> {MP, r}) items h")
  from rp1 rp2 run v1 v2 a rr s m np have res: "res = Inr q" and h': "h' = h1"
    by (simp_all add: combine_proofs_store_def Let_def items_def st_def
        l0_def l1_def l2_def n1_def n2_def)
  have "map (item_line h) items =
      map Some (lines P1 @ map (shift_line n1) (lines P2) @ [l0, l1, l2])"
    using map_item_line_Copy[OF read_proof_addrs[OF rp1]]
      map_item_line_shift[OF read_proof_addrs[OF rp2], of n1]
    by (simp add: items_def)
  from new_proof_read[OF this np]
  have "read_proof h1 q = Some
      \<lparr>statement = st, rules = rules P1 \<union> {MP, r},
       lines = lines P1 @ map (shift_line n1) (lines P2) @ [l0, l1, l2]\<rparr>" .
  moreover from v1 v2 a rr s m have "combine_proofs P1 P2 c r = Inr
      \<lparr>statement = st, rules = rules P1 \<union> {MP, r},
       lines = lines P1 @ map (shift_line n1) (lines P2) @ [l0, l1, l2]\<rparr>"
    by (simp add: combine_proofs_def Let_def st_def l0_def l1_def l2_def n1_def n2_def)
  ultimately show ?thesis by (simp add: res h')
qed

lemma prove_from_opposites_store_refines:
  assumes rp1: "read_proof h pa = Some Pa" and rp2: "read_proof h pn = Some Pn"
    and run: "prove_from_opposites_store h pa pn c = (res, h')"
  shows "case res of
      Inl e \<Rightarrow> prove_from_opposites Pa Pn c = Inl e
    | Inr q \<Rightarrow> \<exists>Q. read_proof h' q = Some Q \<and> prove_from_opposites Pa Pn c = Inr Q"
proof (cases "is_valid Pa \<and> is_valid Pn \<and>
    assumptions (statement Pa) = assumptions (statement Pn) \<and>
    Neg (conclusion (statement Pa)) = conclusion (statement Pn) \<and> rules Pa = rules Pn")
  case False
  with rp1 rp2 run show ?thesis
    by (auto simp: prove_from_opposites_store_def prove_from_opposites_def split: if_splits)
next
  case True
  then have v1: "is_valid Pa" and v2: "is_valid Pn"
    and a: "assumptions (statement Pa) = assumptions (statement Pn)"
    and ng: "Neg (conclusion (statement Pa)) = conclusion (statement Pn)"
    and rr: "rules Pa = rules Pn"
    by auto
  define A where "A = conclusion (statement Pa)"
  define n1 where "n1 = length (lines Pa)"
  define n2 where "n2 = length (lines Pn)"
  define l0 where "l0 = Line (Implies (Neg A) (Implies A c)) I2 []"
  define l1 where "l1 = Line (Implies A c) MP [n1 + n2 - 1, n1 + n2]"
  define l2 where "l2 = Line c MP [n1 - 1, n1 + n2 + 1]"
  define items where "items =
     map Copy (line_addrs h pa) @ map (shift_item h n1) (line_addrs h pn) @
     [New l0, New l1, New l2]"
  define st where "st = \<lparr>assumptions = assumptions (statement Pa), conclusion = c\<rparr>"
  from v1 have "lines Pa \<noteq> []" by (simp add: is_valid_iff)
  then have n1: "n1 - 1 + 1 = n1" by (cases "lines Pa") (simp_all add: n1_def)
  obtain q h1 where np: "new_proof st (rules Pa \<union> {MP, I2}) items h = (q, h1)"
    by (cases "new_proof st (rules Pa \<union> {MP, I2}) items h")
  from rp1 rp2 run v1 v2 a ng rr np n1 have res: "res = Inr q" and h': "h' = h1"
    by (simp_all add: prove_from_opposites_store_def Let_def items_def st_def
        l0_def l1_def l2_def n1_def n2_def A_def)
  have "map (item_line h) items =
      map Some (lines Pa @ map (shift_line n1) (lines Pn) @ [l0, l1, l2])"
    using map_item_line_Copy[OF read_proof_addrs[OF rp1]]
      map_item_line_shift[OF read_proof_addrs[OF rp2], of n1]
    by (simp add: items_def)
  from new_proof_read[OF this np]
  have "read_proof h1 q = Some
      \<lparr>statement = st, rules = rules Pa \<union> {MP, I2},
       lines = lines Pa @ map (shift_line n1) (lines Pn) @ [l0, l1, l2]\<rparr>" .
  moreover have "prove_from_opposites Pa Pn c = Inr
      \<lparr>statement = st, rules = rules Pa \<union> {MP, I2},
       lines = lines Pa @ map (shift_line n1) (lines Pn) @ [l0, l1, l2]\<rparr>"
    using prove_from_opposites_result[OF v1 v2 a ng rr, of c]
    by (simp add: st_def l0_def l1_def l2_def n1_def n2_def A_def)
  ultimately show ?thesis by (simp add: res h')
qed

lemma remove_assumption_loop_store_result:
  "fst (remove_assumption_loop_store p a l acc lns h) = remove_assumption_loop p a acc lns"
proof (induction lns arbitrary: acc h)
  case Nil
  then show ?case by simp
next
  case (Cons ln lns)
  then show ?case by (cases "remove_assumption_step p a acc ln") simp_all
qed

lemma remove_assumption_store_refines:
  assumes rp: "read_proof h pa = Some P"
    and run: "remove_assumption_store h pa = (res, h')"
  shows "case res of
      Inl e \<Rightarrow> remove_assumption P = Inl e
    | Inr q \<Rightarrow> \<exists>Q. read_proof h' q = Some Q \<and> remove_assumption P = Inr Q"
proof (cases "is_valid P \<and> 0 < length (assumptions (statement P)) \<and>
    (\<forall>rule \<in> rules P. rule = MP \<or> length (assumptions rule) = 0)")
  case False
  with rp run show ?thesis
    by (auto simp: remove_assumption_store_def remove_assumption_def split: if_splits)
next
  case True
  define a where "a = last (assumptions (statement P))"
  define st where "st =
     \<lparr>assumptions = butlast (assumptions (statement P)),
      conclusion = Implies a (conclusion (statement P))\<rparr>"
  obtain lres h2 where loop:
    "remove_assumption_loop_store P a (length h) [] (lines P) (h @ [ListObj []]) = (lres, h2)"
    by (cases "remove_assumption_loop_store P a (length h) [] (lines P) (h @ [ListObj []])")
  from remove_assumption_loop_store_result[of P a "length h" "[]" "lines P" "h @ [ListObj []]"]
    loop have pure: "remove_assumption_loop P a [] (lines P) = lres" by simp
  show ?thesis
  proof (cases lres)
    case (Inl e)
    with True rp run loop pure show ?thesis
      by (auto simp: remove_assumption_store_def remove_assumption_def Let_def alloc_def a_def)
  next
    case (Inr new_lines)
    obtain q h3 where np: "new_proof st (rules P \<union> {MP, I0, I1, D}) [] h2 = (q, h3)"
      by (cases "new_proof st (rules P \<union> {MP, I0, I1, D}) [] h2")
    from True rp run loop Inr np have res: "res = Inr q" and h': "h' = h3"
      by (simp_all add: remove_assumption_store_def Let_def alloc_def a_def st_def)
    have "map (item_line h2) [] = map Some []" by simp
    from new_proof_read[OF this np]
    have "read_proof h3 q = Some
        \<lparr>statement = st, rules = rules P \<union> {MP, I0, I1, D}, lines = []\<rparr>" .
    moreover from True pure Inr have "remove_assumption P = Inr
        \<lparr>statement = st, rules = rules P \<union> {MP, I0, I1, D}, lines = []\<rparr>"
      by (simp add: remove_assumption_def Let_def a_def st_def)
    ultimately show ?thesis by (simp add: res h')
  qed
qed

lemma prove_by_way_of_contradiction_store_refines:
  assumes rp: "read_proof h pa = Some P"
    and run: "prove_by_way_of_contradiction_store g h pa = (res, h')"
  shows "case res of
      Inl e \<Rightarrow> prove_by_way_of_contradiction g P = Inl e
    | Inr q \<Rightarrow> \<exists>Q. read_proof h' q = Some Q \<and> prove_by_way_of_contradiction g P = Inr Q"
proof (cases "prove_by_way_of_contradiction g P")
  case (Inl e)
  with rp run show ?thesis by (auto simp: prove_by_way_of_contradiction_store_def)
next
  case (Inr Q)
  then have ls: "lines Q = []"
    by (auto simp: prove_by_way_of_contradiction_def Let_def
        split: if_splits sum.splits option.splits)
  obtain q h1 where np: "new_proof (statement Q) (rules Q) [] h = (q, h1)"
    by (cases "new_proof (statement Q) (rules Q) [] h")
  from rp run Inr np have res: "res = Inr q" and h': "h' = h1"
    by (simp_all add: prove_by_way_of_contradiction_store_def)
  have "map (item_line h) [] = map Some []" by simp
  from new_proof_read[OF this np] ls
  have "read_proof h1 q = Some Q" by simp
  with Inr show ?thesis by (simp add: res h')
qed

section \<open>Failing fast on a rule that does not match\<close>

text \<open>
  Claim C8. When \<^verbatim>\<open>prove_corollary\<close> is called with a conditional of which
  "(A->C)" is not a specialization, or \<^verbatim>\<open>combine_proofs\<close> with a double conditional
  of which "(A->(B->C))" is not a specialization, the call raises (an
  \<^verbatim>\<open>AssertionError\<close>) and returns no proof.
\<close>

theorem specialization_failure_raises:
  "(\<not> is_specialization_of
        \<lparr>assumptions = [], conclusion = Implies (conclusion (statement P)) C\<rparr> R
      \<longrightarrow> prove_corollary P C R = Inl AssertionError) \<and>
   (\<not> is_specialization_of
        \<lparr>assumptions = [],
         conclusion = Implies (conclusion (statement P1))
                        (Implies (conclusion (statement P2)) C')\<rparr> R'
      \<longrightarrow> combine_proofs P1 P2 C' R' = Inl AssertionError)"
  by (simp add: prove_corollary_def combine_proofs_def)

theorem specialization_failure_raises_witness:
  "\<not> is_specialization_of
        \<lparr>assumptions = [],
         conclusion = Implies (conclusion (statement proof_of_x)) (Var ''y'')\<rparr> I0 \<and>
   prove_corollary proof_of_x (Var ''y'') I0 = Inl AssertionError \<and>
   \<not> is_specialization_of
        \<lparr>assumptions = [],
         conclusion = Implies (conclusion (statement proof_of_x))
                        (Implies (conclusion (statement proof_of_y)) (Var ''x''))\<rparr> I0 \<and>
   combine_proofs proof_of_x proof_of_y (Var ''x'') I0 = Inl AssertionError"
proof -
  have h1: "\<not> is_specialization_of
        \<lparr>assumptions = [],
         conclusion = Implies (conclusion (statement proof_of_x)) (Var ''y'')\<rparr> I0"
    by code_simp
  have h2: "\<not> is_specialization_of
        \<lparr>assumptions = [],
         conclusion = Implies (conclusion (statement proof_of_x))
                        (Implies (conclusion (statement proof_of_y)) (Var ''x''))\<rparr> I0"
    by code_simp
  from h1 h2
    specialization_failure_raises [of proof_of_x "Var ''y''" I0 proof_of_x proof_of_y "Var ''x''" I0]
  show ?thesis by blast
qed

end
